theory Spec2Isabelle
  imports Complex_Main "HOL-Library.Log_Nat"
begin

unbundle bit_operations_syntax

section \<open>Python values reaching the operation layer\<close>

text \<open>
  The operation functions of \<^verbatim>\<open>backend/app/utils.py\<close> take dynamically typed
  arguments and test them with \<^verbatim>\<open>isinstance\<close>. The values the tests and the HTTP
  layer pass are integers, floats, booleans, strings and \<^verbatim>\<open>None\<close>. Python integers
  are unbounded, so they are \<^typ>\<open>int\<close>.

  A float is an IEEE 754 binary64 value: a sign and a magnitude for the finite ones
  (the magnitude is the exact rational value, so \<open>Finite True 0\<close> is \<^verbatim>\<open>-0.0\<close>),
  the two infinities and one not-a-number value.
\<close>

datatype pyfloat = Finite bool rat | Infinite bool | NaN

datatype pyval = PNone | PBool bool | PInt int | PFloat pyfloat | PStr string

datatype pyerror =
    ValueError string
  | ZeroDivisionError string
  | OverflowError string
  | TypeError string
  | AttributeError string

subsection \<open>Rounding to binary64\<close>

definition pow2 :: "int \<Rightarrow> rat" where
  "pow2 k = (if 0 \<le> k then 2 ^ nat k else 1 / 2 ^ nat (- k))"

text \<open>The exponent of the leading bit of a positive rational.\<close>

definition floor_log2 :: "rat \<Rightarrow> int" where
  "floor_log2 v =
     (let (p, q) = quotient_of v; e = bitlen p - bitlen q
      in if pow2 e \<le> v then e else e - 1)"

definition round_half_even :: "rat \<Rightarrow> int" where
  "round_half_even x =
     (let f = \<lfloor>x\<rfloor>; d = x - of_int f
      in if d < 1 / 2 then f
         else if 1 / 2 < d then f + 1
         else if even f then f else f + 1)"

text \<open>
  The nearest binary64 magnitude of a non-negative rational, ties to the even
  significand: 53 significant bits, the unit in the last place never below
  \<open>2\<^sup>-\<^sup>1\<^sup>0\<^sup>7\<^sup>4\<close> (subnormals), and no result when the rounded magnitude
  reaches \<open>2\<^sup>1\<^sup>0\<^sup>2\<^sup>4\<close>.
\<close>

definition round_double :: "rat \<Rightarrow> rat option" where
  "round_double v =
     (if v = 0 then Some 0
      else let k = max (floor_log2 v - 52) (- 1074);
               r = of_int (round_half_even (v / pow2 k)) * pow2 k
           in if pow2 1024 \<le> r then None else Some r)"

text \<open>Float arithmetic overflows to an infinity; it never raises.\<close>

definition float_of_mag :: "bool \<Rightarrow> rat \<Rightarrow> pyfloat" where
  "float_of_mag s v = (case round_double v of None \<Rightarrow> Infinite s | Some r \<Rightarrow> Finite s r)"

fun sval :: "bool \<Rightarrow> rat \<Rightarrow> rat" where
  "sval s x = (if s then - x else x)"

fun fneg :: "pyfloat \<Rightarrow> pyfloat" where
  "fneg (Finite s x) = Finite (\<not> s) x"
| "fneg (Infinite s) = Infinite (\<not> s)"
| "fneg NaN = NaN"

fun fabs :: "pyfloat \<Rightarrow> pyfloat" where
  "fabs (Finite s x) = Finite False x"
| "fabs (Infinite s) = Infinite False"
| "fabs NaN = NaN"

fun fadd :: "pyfloat \<Rightarrow> pyfloat \<Rightarrow> pyfloat" where
  "fadd NaN y = NaN"
| "fadd x NaN = NaN"
| "fadd (Infinite s) (Infinite t) = (if s = t then Infinite s else NaN)"
| "fadd (Infinite s) (Finite t y) = Infinite s"
| "fadd (Finite s x) (Infinite t) = Infinite t"
| "fadd (Finite s x) (Finite t y) =
     (let r = sval s x + sval t y
      in if r = 0 then Finite (s \<and> t) 0 else float_of_mag (r < 0) \<bar>r\<bar>)"

definition fsub :: "pyfloat \<Rightarrow> pyfloat \<Rightarrow> pyfloat" where
  "fsub x y = fadd x (fneg y)"

fun fmul :: "pyfloat \<Rightarrow> pyfloat \<Rightarrow> pyfloat" where
  "fmul NaN y = NaN"
| "fmul x NaN = NaN"
| "fmul (Infinite s) (Infinite t) = Infinite (s \<noteq> t)"
| "fmul (Infinite s) (Finite t y) = (if y = 0 then NaN else Infinite (s \<noteq> t))"
| "fmul (Finite s x) (Infinite t) = (if x = 0 then NaN else Infinite (s \<noteq> t))"
| "fmul (Finite s x) (Finite t y) = float_of_mag (s \<noteq> t) (x * y)"

text \<open>Python's float division raises on a zero divisor instead of returning an infinity.\<close>

fun fdiv :: "pyfloat \<Rightarrow> pyfloat \<Rightarrow> pyerror + pyfloat" where
  "fdiv x (Finite t y) =
     (if y = 0 then Inl (ZeroDivisionError ''float division by zero'')
      else case x of
             NaN \<Rightarrow> Inr NaN
           | Infinite s \<Rightarrow> Inr (Infinite (s \<noteq> t))
           | Finite s x' \<Rightarrow> Inr (float_of_mag (s \<noteq> t) (x' / y)))"
| "fdiv NaN y = Inr NaN"
| "fdiv x NaN = Inr NaN"
| "fdiv (Infinite s) (Infinite t) = Inr NaN"
| "fdiv (Finite s x) (Infinite t) = Inr (Finite (s \<noteq> t) 0)"

text \<open>
  Converting an integer to a float rounds it; an integer beyond the float range raises
  \<^verbatim>\<open>OverflowError\<close>, and so does the true division of two integers whose
  quotient is beyond it.
\<close>

definition float_of_int :: "int \<Rightarrow> pyerror + pyfloat" where
  "float_of_int i =
     (case round_double (of_int \<bar>i\<bar>) of
        None \<Rightarrow> Inl (OverflowError ''int too large to convert to float'')
      | Some r \<Rightarrow> Inr (Finite (i < 0) r))"

definition int_truediv :: "int \<Rightarrow> int \<Rightarrow> pyerror + pyfloat" where
  "int_truediv a b =
     (if b = 0 then Inl (ZeroDivisionError ''division by zero'')
      else case round_double (of_int \<bar>a\<bar> / of_int \<bar>b\<bar>) of
             None \<Rightarrow> Inl (OverflowError ''integer division result too large for a float'')
           | Some r \<Rightarrow> Inr (Finite ((a < 0) \<noteq> (b < 0)) r))"

subsection \<open>The operators the operation layer uses\<close>

text \<open>
  \<^verbatim>\<open>bool\<close> is a subclass of \<^verbatim>\<open>int\<close>: \<^verbatim>\<open>isinstance(True, int)\<close> holds and
  \<^verbatim>\<open>True\<close> counts as 1 in arithmetic.
\<close>

fun isinstance_int :: "pyval \<Rightarrow> bool" where
  "isinstance_int (PInt i) = True"
| "isinstance_int (PBool b) = True"
| "isinstance_int v = False"

fun isinstance_int_float :: "pyval \<Rightarrow> bool" where
  "isinstance_int_float (PFloat x) = True"
| "isinstance_int_float v = isinstance_int v"

fun isinstance_bool :: "pyval \<Rightarrow> bool" where
  "isinstance_bool (PBool b) = True"
| "isinstance_bool v = False"

fun int_value :: "pyval \<Rightarrow> int option" where
  "int_value (PInt i) = Some i"
| "int_value (PBool b) = Some (if b then 1 else 0)"
| "int_value v = None"

fun to_float :: "pyval \<Rightarrow> pyerror + pyfloat" where
  "to_float (PFloat x) = Inr x"
| "to_float v =
     (case int_value v of
        Some i \<Rightarrow> float_of_int i
      | None \<Rightarrow> Inl (TypeError ''unsupported operand type''))"

text \<open>
  A binary operator on two integers stays in the integers; with a float operand the
  other operand is converted to a float first. Operands that are not numbers do not
  reach an operator in the functions below, whose guards reject them; here they give
  \<^verbatim>\<open>TypeError\<close>.
\<close>

definition float_binop ::
  "(pyfloat \<Rightarrow> pyfloat \<Rightarrow> pyerror + pyfloat) \<Rightarrow> pyval \<Rightarrow> pyval \<Rightarrow> pyerror + pyval" where
  "float_binop f a b =
     (case to_float a of
        Inl e \<Rightarrow> Inl e
      | Inr x \<Rightarrow>
          (case to_float b of
             Inl e \<Rightarrow> Inl e
           | Inr y \<Rightarrow> (case f x y of Inl e \<Rightarrow> Inl e | Inr z \<Rightarrow> Inr (PFloat z))))"

definition py_add :: "pyval \<Rightarrow> pyval \<Rightarrow> pyerror + pyval" where
  "py_add a b =
     (case (int_value a, int_value b) of
        (Some i, Some j) \<Rightarrow> Inr (PInt (i + j))
      | _ \<Rightarrow> float_binop (\<lambda>x y. Inr (fadd x y)) a b)"

definition py_sub :: "pyval \<Rightarrow> pyval \<Rightarrow> pyerror + pyval" where
  "py_sub a b =
     (case (int_value a, int_value b) of
        (Some i, Some j) \<Rightarrow> Inr (PInt (i - j))
      | _ \<Rightarrow> float_binop (\<lambda>x y. Inr (fsub x y)) a b)"

definition py_mul :: "pyval \<Rightarrow> pyval \<Rightarrow> pyerror + pyval" where
  "py_mul a b =
     (case (int_value a, int_value b) of
        (Some i, Some j) \<Rightarrow> Inr (PInt (i * j))
      | _ \<Rightarrow> float_binop (\<lambda>x y. Inr (fmul x y)) a b)"

definition py_truediv :: "pyval \<Rightarrow> pyval \<Rightarrow> pyerror + pyval" where
  "py_truediv a b =
     (case (int_value a, int_value b) of
        (Some i, Some j) \<Rightarrow>
          (case int_truediv i j of Inl e \<Rightarrow> Inl e | Inr z \<Rightarrow> Inr (PFloat z))
      | _ \<Rightarrow> float_binop fdiv a b)"

fun py_abs :: "pyval \<Rightarrow> pyerror + pyval" where
  "py_abs (PFloat x) = Inr (PFloat (fabs x))"
| "py_abs v =
     (case int_value v of
        Some i \<Rightarrow> Inr (PInt \<bar>i\<bar>)
      | None \<Rightarrow> Inl (TypeError ''bad operand type for abs()''))"

fun py_neg :: "pyval \<Rightarrow> pyerror + pyval" where
  "py_neg (PFloat x) = Inr (PFloat (fneg x))"
| "py_neg v =
     (case int_value v of
        Some i \<Rightarrow> Inr (PInt (- i))
      | None \<Rightarrow> Inl (TypeError ''bad operand type for unary -''))"

text \<open>
  Comparison of numbers is by exact value, also between an integer and a float; a
  not-a-number compares unequal to, and neither above nor below, everything.
\<close>

fun float_eq :: "pyfloat \<Rightarrow> pyfloat \<Rightarrow> bool" where
  "float_eq (Finite s x) (Finite t y) = (sval s x = sval t y)"
| "float_eq (Infinite s) (Infinite t) = (s = t)"
| "float_eq x y = False"

fun float_eq_int :: "pyfloat \<Rightarrow> int \<Rightarrow> bool" where
  "float_eq_int (Finite s x) i = (sval s x = of_int i)"
| "float_eq_int x i = False"

fun py_eq :: "pyval \<Rightarrow> pyval \<Rightarrow> bool" where
  "py_eq (PFloat x) (PFloat y) = float_eq x y"
| "py_eq (PFloat x) b = (case int_value b of Some j \<Rightarrow> float_eq_int x j | None \<Rightarrow> False)"
| "py_eq a (PFloat y) = (case int_value a of Some i \<Rightarrow> float_eq_int y i | None \<Rightarrow> False)"
| "py_eq (PStr s) (PStr t) = (s = t)"
| "py_eq PNone PNone = True"
| "py_eq a b =
     (case (int_value a, int_value b) of (Some i, Some j) \<Rightarrow> i = j | _ \<Rightarrow> False)"

fun float_ge_int :: "pyfloat \<Rightarrow> int \<Rightarrow> bool" where
  "float_ge_int (Finite s x) i = (of_int i \<le> sval s x)"
| "float_ge_int (Infinite s) i = (\<not> s)"
| "float_ge_int NaN i = False"

text \<open>\<^verbatim>\<open>v >= i\<close> for a number \<open>v\<close> and an integer \<open>i\<close>.\<close>

fun py_ge_int :: "pyval \<Rightarrow> int \<Rightarrow> bool" where
  "py_ge_int (PFloat x) i = float_ge_int x i"
| "py_ge_int v i = (case int_value v of Some j \<Rightarrow> i \<le> j | None \<Rightarrow> False)"

text \<open>
  \<^verbatim>\<open>bin(n)\<close>: an optional minus sign, the prefix \<^verbatim>\<open>0b\<close> and the binary digits
  of the magnitude without leading zeros (\<^verbatim>\<open>0b0\<close> for zero).
\<close>

fun bin_digits :: "nat \<Rightarrow> string" where
  "bin_digits n =
     (if n < 2 then [if n = 0 then CHR ''0'' else CHR ''1'']
      else bin_digits (n div 2) @ [if n mod 2 = 0 then CHR ''0'' else CHR ''1''])"

definition bin :: "int \<Rightarrow> string" where
  "bin n = (if n < 0 then ''-0b'' else ''0b'') @ bin_digits (nat \<bar>n\<bar>)"

section \<open>The operation layer: \<^verbatim>\<open>backend/app/utils.py\<close>\<close>

text \<open>
  Every function validates its operands and then computes; an exception is the
  left summand of the result.
\<close>

definition add_numbers :: "pyval \<Rightarrow> pyval \<Rightarrow> pyerror + pyval" where
  "add_numbers a b =
     (if \<not> isinstance_int_float a \<or> \<not> isinstance_int_float b
      then Inl (ValueError ''Both inputs must be integers or floats'')
      else if isinstance_bool a \<or> isinstance_bool b
      then Inl (ValueError ''Boolean values are not allowed'')
      else py_add a b)"

definition subtract_numbers :: "pyval \<Rightarrow> pyval \<Rightarrow> pyerror + pyval" where
  "subtract_numbers a b =
     (if \<not> isinstance_int_float a \<or> \<not> isinstance_int_float b
      then Inl (ValueError ''Both inputs must be integers or floats'')
      else if isinstance_bool a \<or> isinstance_bool b
      then Inl (ValueError ''Boolean values are not allowed'')
      else py_sub a b)"

definition multiply_numbers :: "pyval \<Rightarrow> pyval \<Rightarrow> pyerror + pyval" where
  "multiply_numbers a b =
     (if \<not> isinstance_int_float a \<or> \<not> isinstance_int_float b
      then Inl (ValueError ''Both inputs must be integers or floats'')
      else if isinstance_bool a \<or> isinstance_bool b
      then Inl (ValueError ''Boolean values are not allowed'')
      else py_mul a b)"

definition divide_numbers :: "pyval \<Rightarrow> pyval \<Rightarrow> pyerror + pyval" where
  "divide_numbers a b =
     (if \<not> isinstance_int_float a \<or> \<not> isinstance_int_float b
      then Inl (ValueError ''Both inputs must be integers or floats'')
      else if isinstance_bool a \<or> isinstance_bool b
      then Inl (ValueError ''Boolean values are not allowed'')
      else if py_eq b (PInt 0)
      then Inl (ZeroDivisionError ''Cannot divide by zero'')
      else py_truediv a b)"

text \<open>
  The loop of \<^verbatim>\<open>even_parity\<close> over the characters of \<^verbatim>\<open>bin(n)[2:]\<close>, with its
  counter.
\<close>

fun count_loop :: "string \<Rightarrow> int \<Rightarrow> int" where
  "count_loop [] count = count"
| "count_loop (b # rest) count =
     count_loop rest (if b = CHR ''1'' then count + 1 else count)"

text \<open>\<^verbatim>\<open>not count & 1\<close> is \<^verbatim>\<open>not (count & 1)\<close>: true when the low bit is clear.\<close>

definition even_parity :: "pyval \<Rightarrow> pyerror + bool" where
  "even_parity n =
     (if \<not> isinstance_int n \<or> isinstance_bool n
      then Inl (ValueError ''Input must be an integer'')
      else case int_value n of
             Some i \<Rightarrow> Inr (count_loop (drop 2 (bin i)) 0 AND 1 = 0)
           | None \<Rightarrow> Inl (ValueError ''Input must be an integer''))"

definition is_even :: "pyval \<Rightarrow> pyerror + bool" where
  "is_even n =
     (if \<not> isinstance_int n \<or> isinstance_bool n
      then Inl (ValueError ''Input must be an integer'')
      else case int_value n of
             Some i \<Rightarrow> Inr (i AND 1 = 0)
           | None \<Rightarrow> Inl (ValueError ''Input must be an integer''))"

definition is_odd :: "pyval \<Rightarrow> pyerror + bool" where
  "is_odd n =
     (if \<not> isinstance_int n \<or> isinstance_bool n
      then Inl (ValueError ''Input must be an integer'')
      else case int_value n of
             Some i \<Rightarrow> Inr (i AND 1 \<noteq> 0)
           | None \<Rightarrow> Inl (ValueError ''Input must be an integer''))"

definition square :: "pyval \<Rightarrow> pyerror + pyval" where
  "square n =
     (if \<not> isinstance_int_float n \<or> isinstance_bool n
      then Inl (ValueError ''Input must be a number (int or float)'')
      else py_mul n n)"

definition absolute_value :: "pyval \<Rightarrow> pyerror + pyval" where
  "absolute_value n =
     (if \<not> isinstance_int_float n \<or> isinstance_bool n
      then Inl (ValueError ''Input must be a number (int or float)'')
      else py_abs n)"

section \<open>The HTTP layer: \<^verbatim>\<open>app/main.py\<close>\<close>

text \<open>
  A view function reads the query parameters of the request, converts them with
  \<^verbatim>\<open>int\<close>, calls an operation function and returns a JSON body with a status
  code. The clock read by \<^verbatim>\<open>get_current_time\<close> is the argument \<open>now\<close>.
\<close>

datatype json =
    JNull
  | JBool bool
  | JInt int
  | JFloat pyfloat
  | JStr string
  | JList "json list"
  | JObj "(string \<times> json) list"

record response =
  body :: json
  status :: nat

fun json_of :: "pyval \<Rightarrow> json" where
  "json_of PNone = JNull"
| "json_of (PBool b) = JBool b"
| "json_of (PInt i) = JInt i"
| "json_of (PFloat x) = JFloat x"
| "json_of (PStr s) = JStr s"

subsection \<open>\<^verbatim>\<open>int\<close> of a string\<close>

text \<open>
  \<^verbatim>\<open>int(s)\<close> in base 10 on an ASCII string: surrounding whitespace is dropped, one
  sign is allowed, and the digits may be separated by single underscores. Anything
  else raises \<^verbatim>\<open>ValueError\<close>, whose message is shortened here: no view shows it.
  The model is of strings of ASCII characters: the whitespace and the decimal digits
  that Python also accepts outside ASCII, and the interpreter's limit on the number of
  digits, are outside it.
\<close>

definition is_digit :: "char \<Rightarrow> bool" where
  "is_digit c = (48 \<le> (of_char c :: nat) \<and> (of_char c :: nat) \<le> 57)"

definition digit_val :: "char \<Rightarrow> int" where
  "digit_val c = int (of_char c) - 48"

definition is_space :: "char \<Rightarrow> bool" where
  "is_space c =
     (c \<in> set [CHR '' '', CHR 0x09, CHR 0x0A, CHR 0x0B, CHR 0x0C, CHR 0x0D])"

definition strip :: "string \<Rightarrow> string" where
  "strip s = rev (dropWhile is_space (rev (dropWhile is_space s)))"

fun digits_value :: "string \<Rightarrow> int \<Rightarrow> int option" where
  "digits_value [] acc = Some acc"
| "digits_value (c # cs) acc =
     (if is_digit c then digits_value cs (10 * acc + digit_val c)
      else if c = CHR ''_'' \<and> cs \<noteq> [] \<and> is_digit (hd cs) then digits_value cs acc
      else None)"

definition py_int :: "string \<Rightarrow> pyerror + int" where
  "py_int s =
     (let t = strip s;
          neg = (t \<noteq> [] \<and> hd t = CHR ''-'');
          u = (if t \<noteq> [] \<and> (hd t = CHR ''-'' \<or> hd t = CHR ''+'') then tl t else t)
      in if u \<noteq> [] \<and> is_digit (hd u)
         then (case digits_value u 0 of
                 Some v \<Rightarrow> Inr (if neg then - v else v)
               | None \<Rightarrow> Inl (ValueError ''invalid literal for int() with base 10''))
         else Inl (ValueError ''invalid literal for int() with base 10''))"

subsection \<open>The arithmetic endpoints\<close>

text \<open>
  Each view is a \<^verbatim>\<open>try\<close> block and its \<^verbatim>\<open>except\<close> clauses. The block is written
  over the operation function \<open>op\<close> it calls, so that a statement about the view can
  say that the outcome does not depend on that function; the view itself is the
  block at the function the source names. An exception that no clause catches
  leaves the view.
\<close>

definition add_try ::
  "(pyval \<Rightarrow> pyval \<Rightarrow> pyerror + pyval) \<Rightarrow> string \<Rightarrow> (string \<rightharpoonup> string) \<Rightarrow> pyerror + response" where
  "add_try op now args =
     (case (args ''a'', args ''b'') of
        (Some a, Some b) \<Rightarrow>
          (case py_int a of
             Inl e \<Rightarrow> Inl e
           | Inr a' \<Rightarrow>
               (case py_int b of
                  Inl e \<Rightarrow> Inl e
                | Inr b' \<Rightarrow>
                    (case op (PInt a') (PInt b') of
                       Inl e \<Rightarrow> Inl e
                     | Inr result \<Rightarrow>
                         Inr \<lparr>body = JObj [(''operation'', JStr ''add''), (''a'', JInt a'),
                                           (''b'', JInt b'), (''result'', json_of result),
                                           (''timestamp'', JStr now)],
                              status = 200\<rparr>)))
      | _ \<Rightarrow> Inr \<lparr>body = JObj [(''error'', JStr ''Parameters 'a' and 'b' are required'')],
                  status = 400\<rparr>)"

definition add_with ::
  "(pyval \<Rightarrow> pyval \<Rightarrow> pyerror + pyval) \<Rightarrow> string \<Rightarrow> (string \<rightharpoonup> string) \<Rightarrow> pyerror + response" where
  "add_with op now args =
     (case add_try op now args of
        Inl (ValueError m) \<Rightarrow>
          Inr \<lparr>body = JObj [(''error'', JStr ''Parameters must be valid integers'')], status = 400\<rparr>
      | r \<Rightarrow> r)"

definition add :: "string \<Rightarrow> (string \<rightharpoonup> string) \<Rightarrow> pyerror + response" where
  "add = add_with add_numbers"

definition subtract_try ::
  "(pyval \<Rightarrow> pyval \<Rightarrow> pyerror + pyval) \<Rightarrow> string \<Rightarrow> (string \<rightharpoonup> string) \<Rightarrow> pyerror + response" where
  "subtract_try op now args =
     (case (args ''a'', args ''b'') of
        (Some a, Some b) \<Rightarrow>
          (case py_int a of
             Inl e \<Rightarrow> Inl e
           | Inr a' \<Rightarrow>
               (case py_int b of
                  Inl e \<Rightarrow> Inl e
                | Inr b' \<Rightarrow>
                    (case op (PInt a') (PInt b') of
                       Inl e \<Rightarrow> Inl e
                     | Inr result \<Rightarrow>
                         Inr \<lparr>body = JObj [(''operation'', JStr ''subtract''), (''a'', JInt a'),
                                           (''b'', JInt b'), (''result'', json_of result),
                                           (''timestamp'', JStr now)],
                              status = 200\<rparr>)))
      | _ \<Rightarrow> Inr \<lparr>body = JObj [(''error'', JStr ''Parameters 'a' and 'b' are required'')],
                  status = 400\<rparr>)"

definition subtract_with ::
  "(pyval \<Rightarrow> pyval \<Rightarrow> pyerror + pyval) \<Rightarrow> string \<Rightarrow> (string \<rightharpoonup> string) \<Rightarrow> pyerror + response" where
  "subtract_with op now args =
     (case subtract_try op now args of
        Inl (ValueError m) \<Rightarrow>
          Inr \<lparr>body = JObj [(''error'', JStr ''Parameters must be valid integers'')], status = 400\<rparr>
      | r \<Rightarrow> r)"

definition subtract :: "string \<Rightarrow> (string \<rightharpoonup> string) \<Rightarrow> pyerror + response" where
  "subtract = subtract_with subtract_numbers"

definition multiply_try ::
  "(pyval \<Rightarrow> pyval \<Rightarrow> pyerror + pyval) \<Rightarrow> string \<Rightarrow> (string \<rightharpoonup> string) \<Rightarrow> pyerror + response" where
  "multiply_try op now args =
     (case (args ''a'', args ''b'') of
        (Some a, Some b) \<Rightarrow>
          (case py_int a of
             Inl e \<Rightarrow> Inl e
           | Inr a' \<Rightarrow>
               (case py_int b of
                  Inl e \<Rightarrow> Inl e
                | Inr b' \<Rightarrow>
                    (case op (PInt a') (PInt b') of
                       Inl e \<Rightarrow> Inl e
                     | Inr result \<Rightarrow>
                         Inr \<lparr>body = JObj [(''operation'', JStr ''multiply''), (''a'', JInt a'),
                                           (''b'', JInt b'), (''result'', json_of result),
                                           (''timestamp'', JStr now)],
                              status = 200\<rparr>)))
      | _ \<Rightarrow> Inr \<lparr>body = JObj [(''error'', JStr ''Parameters 'a' and 'b' are required'')],
                  status = 400\<rparr>)"

definition multiply_with ::
  "(pyval \<Rightarrow> pyval \<Rightarrow> pyerror + pyval) \<Rightarrow> string \<Rightarrow> (string \<rightharpoonup> string) \<Rightarrow> pyerror + response" where
  "multiply_with op now args =
     (case multiply_try op now args of
        Inl (ValueError m) \<Rightarrow>
          Inr \<lparr>body = JObj [(''error'', JStr ''Parameters must be valid integers'')], status = 400\<rparr>
      | r \<Rightarrow> r)"

definition multiply :: "string \<Rightarrow> (string \<rightharpoonup> string) \<Rightarrow> pyerror + response" where
  "multiply = multiply_with multiply_numbers"

definition divide_try ::
  "(pyval \<Rightarrow> pyval \<Rightarrow> pyerror + pyval) \<Rightarrow> string \<Rightarrow> (string \<rightharpoonup> string) \<Rightarrow> pyerror + response" where
  "divide_try op now args =
     (case (args ''a'', args ''b'') of
        (Some a, Some b) \<Rightarrow>
          (case py_int a of
             Inl e \<Rightarrow> Inl e
           | Inr a' \<Rightarrow>
               (case py_int b of
                  Inl e \<Rightarrow> Inl e
                | Inr b' \<Rightarrow>
                    (case op (PInt a') (PInt b') of
                       Inl e \<Rightarrow> Inl e
                     | Inr result \<Rightarrow>
                         Inr \<lparr>body = JObj [(''operation'', JStr ''divide''), (''a'', JInt a'),
                                           (''b'', JInt b'), (''result'', json_of result),
                                           (''timestamp'', JStr now)],
                              status = 200\<rparr>)))
      | _ \<Rightarrow> Inr \<lparr>body = JObj [(''error'', JStr ''Parameters 'a' and 'b' are required'')],
                  status = 400\<rparr>)"

definition divide_with ::
  "(pyval \<Rightarrow> pyval \<Rightarrow> pyerror + pyval) \<Rightarrow> string \<Rightarrow> (string \<rightharpoonup> string) \<Rightarrow> pyerror + response" where
  "divide_with op now args =
     (case divide_try op now args of
        Inl (ValueError m) \<Rightarrow>
          Inr \<lparr>body = JObj [(''error'', JStr ''Parameters must be valid integers'')], status = 400\<rparr>
      | Inl (ZeroDivisionError m) \<Rightarrow>
          Inr \<lparr>body = JObj [(''error'', JStr ''Division by zero is not allowed'')], status = 400\<rparr>
      | r \<Rightarrow> r)"

definition divide_view :: "string \<Rightarrow> (string \<rightharpoonup> string) \<Rightarrow> pyerror + response" where
  "divide_view = divide_with divide_numbers"

subsection \<open>The one-parameter endpoints\<close>

definition square_endpoint :: "string \<Rightarrow> (string \<rightharpoonup> string) \<Rightarrow> pyerror + response" where
  "square_endpoint now args =
     (case (case args ''n'' of
              None \<Rightarrow> Inr \<lparr>body = JObj [(''error'', JStr ''Parameter 'n' is required'')],
                           status = 400\<rparr>
            | Some n \<Rightarrow>
                (case py_int n of
                   Inl e \<Rightarrow> Inl e
                 | Inr n' \<Rightarrow>
                     (case square (PInt n') of
                        Inl e \<Rightarrow> Inl e
                      | Inr result \<Rightarrow>
                          Inr \<lparr>body = JObj [(''operation'', JStr ''square''), (''input'', JInt n'),
                                            (''result'', json_of result), (''timestamp'', JStr now)],
                               status = 200\<rparr>))) of
        Inl (ValueError m) \<Rightarrow>
          Inr \<lparr>body = JObj [(''error'', JStr ''Parameter must be a valid integer'')], status = 400\<rparr>
      | r \<Rightarrow> r)"

definition absolute_endpoint :: "string \<Rightarrow> (string \<rightharpoonup> string) \<Rightarrow> pyerror + response" where
  "absolute_endpoint now args =
     (case (case args ''n'' of
              None \<Rightarrow> Inr \<lparr>body = JObj [(''error'', JStr ''Parameter 'n' is required'')],
                           status = 400\<rparr>
            | Some n \<Rightarrow>
                (case py_int n of
                   Inl e \<Rightarrow> Inl e
                 | Inr n' \<Rightarrow>
                     (case absolute_value (PInt n') of
                        Inl e \<Rightarrow> Inl e
                      | Inr result \<Rightarrow>
                          Inr \<lparr>body = JObj [(''operation'', JStr ''absolute_value''),
                                            (''input'', JInt n'), (''result'', json_of result),
                                            (''timestamp'', JStr now)],
                               status = 200\<rparr>))) of
        Inl (ValueError m) \<Rightarrow>
          Inr \<lparr>body = JObj [(''error'', JStr ''Parameter must be a valid integer'')], status = 400\<rparr>
      | r \<Rightarrow> r)"

text \<open>
  The parity views receive the integer that the route's converter made of the path
  segment. Their \<^verbatim>\<open>except\<close> clause answers with the message of the exception.
\<close>

definition parity_endpoint :: "string \<Rightarrow> int \<Rightarrow> pyerror + response" where
  "parity_endpoint now n =
     (case (case is_even (PInt n) of
              Inl e \<Rightarrow> Inl e
            | Inr ev \<Rightarrow>
                (case is_odd (PInt n) of
                   Inl e \<Rightarrow> Inl e
                 | Inr od \<Rightarrow>
                     Inr \<lparr>body = JObj [(''operation'', JStr ''parity''), (''input'', JInt n),
                                       (''is_even'', JBool ev), (''is_odd'', JBool od),
                                       (''parity'', JStr (if ev then ''even'' else ''odd'')),
                                       (''timestamp'', JStr now)],
                          status = 200\<rparr>)) of
        Inl (ValueError m) \<Rightarrow> Inr \<lparr>body = JObj [(''error'', JStr m)], status = 400\<rparr>
      | r \<Rightarrow> r)"

definition odd_even_endpoint :: "string \<Rightarrow> int \<Rightarrow> pyerror + response" where
  "odd_even_endpoint now n =
     (case (case is_even (PInt n) of
              Inl e \<Rightarrow> Inl e
            | Inr ev \<Rightarrow>
                (case is_odd (PInt n) of
                   Inl e \<Rightarrow> Inl e
                 | Inr od \<Rightarrow>
                     Inr \<lparr>body = JObj [(''operation'', JStr ''Odd/Even Check''), (''input'', JInt n),
                                       (''is_even'', JBool ev), (''is_odd'', JBool od),
                                       (''status'', JStr (if ev then ''even'' else ''odd'')),
                                       (''timestamp'', JStr now)],
                          status = 200\<rparr>)) of
        Inl (ValueError m) \<Rightarrow> Inr \<lparr>body = JObj [(''error'', JStr m)], status = 400\<rparr>
      | r \<Rightarrow> r)"

subsection \<open>Health, info and echo\<close>

datatype http_method = GET | POST | PUT | PATCH | DELETE

text \<open>
  What a view reads of a request: the method, the path, the query parameters and the
  value that \<^verbatim>\<open>request.get_json()\<close> returns (\<open>JNull\<close> for \<^verbatim>\<open>None\<close>). The
  methods \<^verbatim>\<open>HEAD\<close> and \<^verbatim>\<open>OPTIONS\<close>, which the framework answers without the
  views, are left out.
\<close>

record request =
  req_method :: http_method
  path :: string
  args :: "string \<rightharpoonup> string"
  get_json :: json

definition health_check :: "string \<Rightarrow> response" where
  "health_check now =
     \<lparr>body = JObj [(''status'', JStr ''healthy''),
                   (''message'', JStr ''Python CI/CD App is running!''),
                   (''timestamp'', JStr now)],
      status = 200\<rparr>"

definition detailed_health_check :: "string \<Rightarrow> response" where
  "detailed_health_check now =
     \<lparr>body = JObj [(''status'', JStr ''healthy''),
                   (''service'', JStr ''python-cicd-app''),
                   (''version'', JStr ''1.0.0''),
                   (''message'', JStr ''Application is operational''),
                   (''timestamp'', JStr now),
                   (''environment'', JStr ''development'')],
      status = 200\<rparr>"

definition endpoint_entry :: "string \<Rightarrow> json \<Rightarrow> string \<Rightarrow> json" where
  "endpoint_entry p m d = JObj [(''path'', JStr p), (''method'', m), (''description'', JStr d)]"

definition app_info :: "string \<Rightarrow> response" where
  "app_info now =
     \<lparr>body = JObj [(''app_name'', JStr ''Python CI/CD Learning Project''),
                   (''version'', JStr ''1.0.0''),
                   (''description'', JStr ''Educational CI/CD pipeline demonstration''),
                   (''endpoints'', JList [
                      endpoint_entry ''/'' (JStr ''GET'') ''Health check'',
                      endpoint_entry ''/api/health'' (JStr ''GET'') ''Detailed health'',
                      endpoint_entry ''/api/info'' (JStr ''GET'') ''App info'',
                      endpoint_entry ''/api/add?a=<num>&b=<num>'' (JStr ''GET'') ''Add numbers'',
                      endpoint_entry ''/api/subtract?a=<num>&b=<num>'' (JStr ''GET'')
                        ''Subtract numbers'',
                      endpoint_entry ''/api/multiply?a=<num>&b=<num>'' (JStr ''GET'')
                        ''Multiply numbers'',
                      endpoint_entry ''/api/divide?a=<num>&b=<num>'' (JStr ''GET'') ''Divide numbers'',
                      endpoint_entry ''/api/square?n=<num>'' (JStr ''GET'') ''Square number'',
                      endpoint_entry ''/api/abs?n=<num>'' (JStr ''GET'') ''Absolute value'',
                      endpoint_entry ''/api/parity/<n>'' (JStr ''GET'') ''Check even/odd'',
                      endpoint_entry ''/api/echo'' (JList [JStr ''GET'', JStr ''POST''])
                        ''Echo data'']),
                   (''timestamp'', JStr now)],
      status = 200\<rparr>"

fun json_truthy :: "json \<Rightarrow> bool" where
  "json_truthy JNull = False"
| "json_truthy (JBool b) = b"
| "json_truthy (JInt i) = (i \<noteq> 0)"
| "json_truthy (JFloat x) = (\<not> float_eq_int x 0)"
| "json_truthy (JStr s) = (s \<noteq> [])"
| "json_truthy (JList xs) = (xs \<noteq> [])"
| "json_truthy (JObj kvs) = (kvs \<noteq> [])"

text \<open>\<^verbatim>\<open>data.get("message", "")\<close>: only a JSON object has the method.\<close>

fun json_get_message :: "json \<Rightarrow> pyerror + json" where
  "json_get_message (JObj kvs) =
     Inr (case map_of kvs ''message'' of Some v \<Rightarrow> v | None \<Rightarrow> JStr [])"
| "json_get_message j = Inl (AttributeError ''object has no attribute 'get' '')"

definition echo :: "string \<Rightarrow> request \<Rightarrow> pyerror + response" where
  "echo now req =
     (case (if req_method req = POST
            then (if json_truthy (get_json req) then json_get_message (get_json req)
                  else Inr (JStr []))
            else Inr (case args req ''message'' of Some m \<Rightarrow> JStr m | None \<Rightarrow> JStr [])) of
        Inl e \<Rightarrow> Inl e
      | Inr message \<Rightarrow>
          Inr \<lparr>body = JObj [(''operation'', JStr ''echo''), (''message'', message),
                            (''timestamp'', JStr now)],
               status = 200\<rparr>)"

subsection \<open>Error handlers\<close>

definition not_found :: "string \<Rightarrow> response" where
  "not_found now =
     \<lparr>body = JObj [(''error'', JStr ''Endpoint not found''), (''status'', JInt 404),
                   (''message'', JStr ''The requested endpoint does not exist''),
                   (''timestamp'', JStr now)],
      status = 404\<rparr>"

definition method_not_allowed :: "string \<Rightarrow> response" where
  "method_not_allowed now =
     \<lparr>body = JObj [(''error'', JStr ''Method not allowed''), (''status'', JInt 405),
                   (''message'', JStr ''The HTTP method is not allowed for this endpoint''),
                   (''timestamp'', JStr now)],
      status = 405\<rparr>"

definition internal_server_error :: "string \<Rightarrow> response" where
  "internal_server_error now =
     \<lparr>body = JObj [(''error'', JStr ''Internal server error''), (''status'', JInt 500),
                   (''message'', JStr ''An unexpected error occurred''),
                   (''timestamp'', JStr now)],
      status = 500\<rparr>"

subsection \<open>Routing\<close>

text \<open>
  The routes are the \<^verbatim>\<open>@app.route\<close> decorators of the views. Matching a path
  against them is done by the web framework, which is not part of the repository.
\<close>

datatype view =
    Health_check
  | Detailed_health_check
  | App_info
  | Add
  | Subtract
  | Multiply
  | Divide
  | Square_endpoint
  | Absolute_endpoint
  | Parity_endpoint int
  | Odd_even_endpoint int
  | Echo

fun strip_prefix :: "string \<Rightarrow> string \<Rightarrow> string option" where
  "strip_prefix [] s = Some s"
| "strip_prefix (p # ps) [] = None"
| "strip_prefix (p # ps) (c # cs) = (if p = c then strip_prefix ps cs else None)"

text \<open>
  Modelled from the spec: the converter of a path parameter declared as
  \<^verbatim>\<open><int:n>\<close>, which belongs to the routing layer of the web framework.
  The spec has it "accept only non-negative integers in its literal form": a
  non-empty run of decimal digits, read as a number.
\<close>

definition int_converter :: "string \<Rightarrow> int option" where
  "int_converter seg =
     (if seg \<noteq> [] \<and> list_all is_digit seg then digits_value seg 0 else None)"

text \<open>
  Modelled from the spec: matching a request path against the routes. A route
  without a parameter matches its own path; a route ending in \<^verbatim>\<open><int:n>\<close>
  matches its prefix followed by a segment the converter accepts. The result is the
  view with its arguments and the methods its decorator lists.
\<close>

definition match_url :: "string \<Rightarrow> (view \<times> http_method list) option" where
  "match_url p =
     (if p = ''/'' then Some (Health_check, [GET])
      else if p = ''/api/health'' then Some (Detailed_health_check, [GET])
      else if p = ''/api/info'' then Some (App_info, [GET])
      else if p = ''/api/add'' then Some (Add, [GET])
      else if p = ''/api/subtract'' then Some (Subtract, [GET])
      else if p = ''/api/multiply'' then Some (Multiply, [GET])
      else if p = ''/api/divide'' then Some (Divide, [GET])
      else if p = ''/api/square'' then Some (Square_endpoint, [GET])
      else if p = ''/api/abs'' then Some (Absolute_endpoint, [GET])
      else if p = ''/api/echo'' then Some (Echo, [GET, POST])
      else case strip_prefix ''/api/parity/'' p of
             Some seg \<Rightarrow>
               (case int_converter seg of
                  Some n \<Rightarrow> Some (Parity_endpoint n, [GET])
                | None \<Rightarrow> None)
           | None \<Rightarrow>
               (case strip_prefix ''/api/odd_even/'' p of
                  Some seg \<Rightarrow>
                    (case int_converter seg of
                       Some n \<Rightarrow> Some (Odd_even_endpoint n, [GET])
                     | None \<Rightarrow> None)
                | None \<Rightarrow> None))"

fun call_view :: "view \<Rightarrow> string \<Rightarrow> request \<Rightarrow> pyerror + response" where
  "call_view Health_check now req = Inr (health_check now)"
| "call_view Detailed_health_check now req = Inr (detailed_health_check now)"
| "call_view App_info now req = Inr (app_info now)"
| "call_view Add now req = add now (args req)"
| "call_view Subtract now req = subtract now (args req)"
| "call_view Multiply now req = multiply now (args req)"
| "call_view Divide now req = divide_view now (args req)"
| "call_view Square_endpoint now req = square_endpoint now (args req)"
| "call_view Absolute_endpoint now req = absolute_endpoint now (args req)"
| "call_view (Parity_endpoint n) now req = parity_endpoint now n"
| "call_view (Odd_even_endpoint n) now req = odd_even_endpoint now n"
| "call_view Echo now req = echo now req"

text \<open>
  Modelled from the spec: the application's answer to a request. A path that no
  route matches goes to the 404 handler, a method the matched route does not list to
  the 405 handler, and an exception that leaves a view to the 500 handler.
\<close>

definition handle_request :: "string \<Rightarrow> request \<Rightarrow> response" where
  "handle_request now req =
     (case match_url (path req) of
        None \<Rightarrow> not_found now
      | Some (v, methods) \<Rightarrow>
          if req_method req \<notin> set methods then method_not_allowed now
          else (case call_view v now req of
                  Inl e \<Rightarrow> internal_server_error now
                | Inr r \<Rightarrow> r))"

section \<open>Notions of the specification\<close>

text \<open>
  An operand that passes the validation of the arithmetic functions: an integer or a
  float, not a boolean.
\<close>

definition is_number :: "pyval \<Rightarrow> bool" where
  "is_number v = (isinstance_int_float v \<and> \<not> isinstance_bool v)"

text \<open>The failure the specification calls InvalidInput is \<^verbatim>\<open>ValueError\<close>.\<close>

fun raises_ValueError :: "pyerror + 'a \<Rightarrow> bool" where
  "raises_ValueError (Inl (ValueError m)) = True"
| "raises_ValueError r = False"

text \<open>
  The specification's bit parity: the number of 1-bits of the magnitude, written in
  binary without a fixed width, is even.
\<close>

fun bit_count :: "nat \<Rightarrow> nat" where
  "bit_count n = (if n = 0 then 0 else n mod 2 + bit_count (n div 2))"

definition spec_even_parity :: "int \<Rightarrow> bool" where
  "spec_even_parity n = even (bit_count (nat \<bar>n\<bar>))"

text \<open>
  The magnitude of a finite float is not negative. The float operations keep this
  (\<open>float_ok_closed\<close> below); statements about the sign of a float assume it of
  their inputs.
\<close>

fun float_ok :: "pyfloat \<Rightarrow> bool" where
  "float_ok (Finite s x) = (0 \<le> x)"
| "float_ok x = True"

text \<open>
  The float range: the largest finite float is \<open>2\<^sup>1\<^sup>0\<^sup>2\<^sup>4 - 2\<^sup>9\<^sup>7\<^sup>1\<close>, and a magnitude
  from \<open>2\<^sup>1\<^sup>0\<^sup>2\<^sup>4 - 2\<^sup>9\<^sup>7\<^sup>0\<close> on rounds beyond it.
\<close>

definition float_overflow_bound :: rat where
  "float_overflow_bound = 2 ^ 1024 - 2 ^ 970"

section \<open>Parity\<close>

declare bit_count.simps [simp del] bin_digits.simps [simp del]

lemma count_loop_filter:
  "count_loop s c = c + int (length (filter (\<lambda>b. b = CHR ''1'') s))"
  by (induction s arbitrary: c) simp_all

lemma ones_bin_digits:
  "length (filter (\<lambda>b. b = CHR ''1'') (bin_digits n)) = bit_count n"
proof (induction n rule: bin_digits.induct)
  case (1 n)
  show ?case
  proof (cases "n < 2")
    case True
    then have "n = 0 \<or> n = 1" by auto
    then show ?thesis
      by (auto simp: bin_digits.simps [of 0] bin_digits.simps [of 1] bin_digits.simps [of "Suc 0"]
          bit_count.simps [of 0] bit_count.simps [of 1] bit_count.simps [of "Suc 0"])
  next
    case False
    with 1 have IH:
      "length (filter (\<lambda>b. b = CHR ''1'') (bin_digits (n div 2))) = bit_count (n div 2)"
      by simp
    from False have "n \<noteq> 0" by simp
    then have bc: "bit_count n = n mod 2 + bit_count (n div 2)"
      by (subst bit_count.simps) simp
    have "n mod 2 = 0 \<or> n mod 2 = 1" by presburger
    with False IH bc show ?thesis
      by (subst bin_digits.simps) auto
  qed
qed

text \<open>
  For a negative number the slice \<^verbatim>\<open>[2:]\<close> removes \<^verbatim>\<open>-0\<close> and leaves the letter
  \<^verbatim>\<open>b\<close> before the digits, which the loop does not count.
\<close>

lemma drop_bin:
  "drop 2 (bin n) =
     (if n < 0 then CHR ''b'' # bin_digits (nat \<bar>n\<bar>) else bin_digits (nat \<bar>n\<bar>))"
  by (simp add: bin_def)

lemma count_loop_bin: "count_loop (drop 2 (bin n)) 0 = int (bit_count (nat \<bar>n\<bar>))"
  by (simp add: drop_bin count_loop_filter ones_bin_digits)

lemma and_one_zero_iff: "(k AND 1 = 0) = even k" for k :: int
  by (simp add: and_one_eq even_iff_mod_2_eq_zero)

text \<open>
  Claim C2. For every integer \<open>n\<close>, \<^verbatim>\<open>even_parity(n)\<close> returns true exactly when the
  number of 1-bits in the binary digits of \<open>|n|\<close> is even, and so it returns the same
  for \<open>n\<close> and \<open>-n\<close>.
\<close>

theorem even_parity_bit_count:
  "even_parity (PInt n) = Inr (spec_even_parity n)
   \<and> even_parity (PInt (- n)) = even_parity (PInt n)"
  by (simp add: even_parity_def spec_even_parity_def count_loop_bin and_one_zero_iff)

theorem even_parity_bit_count_witness:
  "even_parity (PInt (- 7)) = Inr False \<and> even_parity (PInt 7) = Inr False
   \<and> even_parity (PInt (- 5)) = Inr True"
  using even_parity_bit_count [of "- 7"] even_parity_bit_count [of 7]
    even_parity_bit_count [of "- 5"]
  by (simp add: spec_even_parity_def bit_count.simps)

text \<open>
  Claim C5. For every integer \<open>n\<close>, negative ones included, \<^verbatim>\<open>is_even(n)\<close> and
  \<^verbatim>\<open>is_odd(n)\<close> both return, and exactly one of them returns true.
\<close>

theorem is_even_xor_is_odd:
  "\<exists>e d. is_even (PInt n) = Inr e \<and> is_odd (PInt n) = Inr d \<and> (e \<noteq> d) \<and> (e = even n)"
  by (simp add: is_even_def is_odd_def and_one_zero_iff)

theorem is_even_xor_is_odd_witness:
  "is_even (PInt (- 3)) = Inr False \<and> is_odd (PInt (- 3)) = Inr True"
  using is_even_xor_is_odd [of "- 3"] by auto

section \<open>Validation of operands\<close>

lemma is_number_cases: "is_number v \<longleftrightarrow> (\<exists>i. v = PInt i) \<or> (\<exists>x. v = PFloat x)"
  by (cases v) (simp_all add: is_number_def)

text \<open>
  Claim C3. Each of the nine operation functions fails with \<^verbatim>\<open>ValueError\<close> when
  an operand is a boolean, whatever the other operand is.
\<close>

theorem bool_operand_rejected:
  assumes "isinstance_bool x"
  shows "raises_ValueError (add_numbers x b) \<and> raises_ValueError (add_numbers a x)
       \<and> raises_ValueError (subtract_numbers x b) \<and> raises_ValueError (subtract_numbers a x)
       \<and> raises_ValueError (multiply_numbers x b) \<and> raises_ValueError (multiply_numbers a x)
       \<and> raises_ValueError (divide_numbers x b) \<and> raises_ValueError (divide_numbers a x)
       \<and> raises_ValueError (square x) \<and> raises_ValueError (absolute_value x)
       \<and> raises_ValueError (is_even x) \<and> raises_ValueError (is_odd x)
       \<and> raises_ValueError (even_parity x)"
  using assms
  by (simp add: add_numbers_def subtract_numbers_def multiply_numbers_def divide_numbers_def
      square_def absolute_value_def is_even_def is_odd_def even_parity_def)

theorem bool_operand_rejected_witness:
  "isinstance_bool (PBool True)
   \<and> add_numbers (PBool True) (PInt 1) = Inl (ValueError ''Boolean values are not allowed'')
   \<and> raises_ValueError (divide_numbers (PInt 1) (PBool True))
   \<and> square (PBool True) = Inl (ValueError ''Input must be a number (int or float)'')
   \<and> is_even (PBool True) = Inl (ValueError ''Input must be an integer'')"
  using bool_operand_rejected [of "PBool True" "PInt 1" "PInt 1"]
  by (simp add: add_numbers_def square_def is_even_def)

text \<open>
  Claim C8, as stated, fails at the float not-a-number: both functions accept it and
  return it, and it does not compare equal to itself.
\<close>

theorem square_nan_counterexample:
  "is_number (PFloat NaN) \<and> square (PFloat NaN) = Inr (PFloat NaN)
   \<and> multiply_numbers (PFloat NaN) (PFloat NaN) = Inr (PFloat NaN)
   \<and> \<not> py_eq (PFloat NaN) (PFloat NaN)"
  by (simp add: is_number_def square_def multiply_numbers_def py_mul_def float_binop_def)

text \<open>
  Claim C8, amended. For every number \<open>n\<close> that is not a boolean, \<^verbatim>\<open>square(n)\<close>
  and \<^verbatim>\<open>multiply_numbers(n, n)\<close> return the same value, and unless \<open>n\<close> is the
  float not-a-number the two results compare equal.
\<close>

theorem square_eq_multiply:
  assumes "is_number n"
  shows "\<exists>v w. square n = Inr v \<and> multiply_numbers n n = Inr w \<and> v = w
           \<and> (n \<noteq> PFloat NaN \<longrightarrow> py_eq v w)"
proof -
  from assms consider i where "n = PInt i" | x where "n = PFloat x"
    by (auto simp: is_number_cases)
  then show ?thesis
  proof cases
    case 1
    then show ?thesis by (simp add: square_def multiply_numbers_def py_mul_def)
  next
    case 2
    have "x \<noteq> NaN \<longrightarrow> float_eq (fmul x x) (fmul x x)"
      by (cases x) (auto simp: float_of_mag_def split: option.splits)
    with 2 show ?thesis
      by (simp add: square_def multiply_numbers_def py_mul_def float_binop_def)
  qed
qed

theorem square_eq_multiply_witness:
  "is_number (PInt (- 5)) \<and> square (PInt (- 5)) = Inr (PInt 25)
   \<and> multiply_numbers (PInt (- 5)) (PInt (- 5)) = Inr (PInt 25)
   \<and> py_eq (PInt 25) (PInt 25)"
  using square_eq_multiply [of "PInt (- 5)"]
  by (simp add: is_number_def square_def multiply_numbers_def py_mul_def)

section \<open>Rounding\<close>

lemma pow2_powi: "pow2 k = 2 powi k"
  by (simp add: pow2_def power_int_def inverse_eq_divide power_one_over)

lemma pow2_pos: "0 < pow2 k"
  by (simp add: pow2_powi)

lemma pow2_add: "pow2 (a + b) = pow2 a * pow2 b"
  by (simp add: pow2_powi power_int_add)

lemma pow2_mono: "a \<le> b \<Longrightarrow> pow2 a \<le> pow2 b"
  by (simp add: pow2_powi power_int_increasing)

lemma quotient_bounds:
  assumes "0 < v" and q: "quotient_of v = (p, q)"
  shows "pow2 (bitlen p - bitlen q - 1) \<le> v" and "v < pow2 (bitlen p - bitlen q + 1)"
proof -
  have qpos: "0 < q" using q by (rule quotient_of_denom_pos)
  have v: "v = of_int p / of_int q" using q by (rule quotient_of_div)
  with assms qpos have ppos: "0 < p" by (simp add: zero_less_divide_iff)
  from bitlen_bounds [OF ppos] have p1: "2 ^ nat (bitlen p - 1) \<le> p" and p2: "p < 2 ^ nat (bitlen p)"
    by simp_all
  from bitlen_bounds [OF qpos] have q1: "2 ^ nat (bitlen q - 1) \<le> q" and q2: "q < 2 ^ nat (bitlen q)"
    by simp_all
  have bp: "1 \<le> bitlen p" using ppos by (simp add: bitlen_alt_def)
  have bq: "1 \<le> bitlen q" using qpos by (simp add: bitlen_alt_def)
  have P1: "pow2 (bitlen p - 1) \<le> of_int p"
  proof -
    have "(of_int (2 ^ nat (bitlen p - 1)) :: rat) \<le> of_int p" using p1 by (simp only: of_int_le_iff)
    then show ?thesis using bp by (simp add: pow2_def)
  qed
  have P2: "of_int p < pow2 (bitlen p)"
  proof -
    have "(of_int p :: rat) < of_int (2 ^ nat (bitlen p))" using p2 by (simp only: of_int_less_iff)
    then show ?thesis using bp by (simp add: pow2_def)
  qed
  have Q1: "pow2 (bitlen q - 1) \<le> of_int q"
  proof -
    have "(of_int (2 ^ nat (bitlen q - 1)) :: rat) \<le> of_int q" using q1 by (simp only: of_int_le_iff)
    then show ?thesis using bq by (simp add: pow2_def)
  qed
  have Q2: "of_int q < pow2 (bitlen q)"
  proof -
    have "(of_int q :: rat) < of_int (2 ^ nat (bitlen q))" using q2 by (simp only: of_int_less_iff)
    then show ?thesis using bq by (simp add: pow2_def)
  qed
  have qr: "(0::rat) < of_int q" using qpos by simp
  have "pow2 (bitlen p - bitlen q - 1) * pow2 (bitlen q) = pow2 (bitlen p - 1)"
    by (simp add: pow2_add [symmetric])
  then have "pow2 (bitlen p - bitlen q - 1) * of_int q \<le> of_int p"
    using P1 Q2 pow2_pos [of "bitlen p - bitlen q - 1"]
    by (smt (verit) mult_left_mono less_imp_le order_trans)
  then show "pow2 (bitlen p - bitlen q - 1) \<le> v"
    using qr by (simp add: v pos_le_divide_eq)
  have "pow2 (bitlen p - bitlen q + 1) * pow2 (bitlen q - 1) = pow2 (bitlen p)"
    by (simp add: pow2_add [symmetric])
  then have "of_int p < pow2 (bitlen p - bitlen q + 1) * of_int q"
    using P2 Q1 pow2_pos [of "bitlen p - bitlen q + 1"]
    by (smt (verit) mult_left_mono less_imp_le less_le_trans)
  then show "v < pow2 (bitlen p - bitlen q + 1)"
    using qr by (simp add: v pos_divide_less_eq)
qed

lemma floor_log2_bounds:
  assumes "0 < v"
  shows "pow2 (floor_log2 v) \<le> v \<and> v < pow2 (floor_log2 v + 1)"
proof -
  obtain p q where q: "quotient_of v = (p, q)" by (cases "quotient_of v")
  from quotient_bounds [OF assms q] show ?thesis
    by (auto simp: floor_log2_def q Let_def not_le)
qed

lemma round_half_even_error: "\<bar>of_int (round_half_even x) - x\<bar> \<le> 1 / 2"
proof -
  have "of_int \<lfloor>x\<rfloor> \<le> x" and "x < of_int \<lfloor>x\<rfloor> + 1" by linarith+
  then show ?thesis
    by (auto simp: round_half_even_def Let_def abs_le_iff)
qed

lemma floor_le_round_half_even: "\<lfloor>x\<rfloor> \<le> round_half_even x"
  by (simp add: round_half_even_def Let_def)


lemma pow2_less_cancel: "pow2 a < pow2 b \<Longrightarrow> a < b"
  using pow2_mono [of b a] by (cases "a < b") auto

lemma pow2_52: "pow2 52 = 4503599627370496"
  by (simp add: pow2_def)

lemma round_double_normal:
  assumes v: "0 < v" and e: "- 1022 \<le> floor_log2 v"
  defines "r \<equiv> of_int (round_half_even (v / pow2 (floor_log2 v - 52))) * pow2 (floor_log2 v - 52)"
  shows "round_double v = (if pow2 1024 \<le> r then None else Some r)"
    and "pow2 (floor_log2 v) \<le> r"
    and "\<bar>r - v\<bar> \<le> pow2 (floor_log2 v - 53)"
proof -
  let ?e = "floor_log2 v" and ?k = "floor_log2 v - 52"
  let ?x = "v / pow2 ?k"
  have k: "max (?e - 52) (- 1074) = ?k" using e by simp
  show "round_double v = (if pow2 1024 \<le> r then None else Some r)"
    using v by (simp add: round_double_def k r_def Let_def)
  have kp: "0 < pow2 ?k" by (rule pow2_pos)
  have "pow2 ?e = pow2 52 * pow2 ?k" by (simp add: pow2_add [symmetric])
  moreover have "pow2 ?e \<le> v" using floor_log2_bounds [OF v] by simp
  ultimately have "pow2 52 \<le> ?x" using kp by (simp add: pos_le_divide_eq)
  then have "(of_int 4503599627370496 :: rat) \<le> ?x" by (simp add: pow2_52)
  then have "4503599627370496 \<le> \<lfloor>?x\<rfloor>" by (simp only: le_floor_iff)
  with floor_le_round_half_even [of ?x] have "4503599627370496 \<le> round_half_even ?x" by linarith
  then have "(of_int 4503599627370496 :: rat) \<le> of_int (round_half_even ?x)"
    by (simp only: of_int_le_iff)
  then have "pow2 52 * pow2 ?k \<le> r"
    unfolding r_def using kp by (simp add: pow2_52)
  then show "pow2 ?e \<le> r" by (simp add: pow2_add [symmetric])
  have "r - v = (of_int (round_half_even ?x) - ?x) * pow2 ?k"
    using kp by (simp add: r_def algebra_simps)
  then have "\<bar>r - v\<bar> = \<bar>of_int (round_half_even ?x) - ?x\<bar> * pow2 ?k"
    using kp by (simp add: abs_mult)
  also have "\<dots> \<le> (1 / 2) * pow2 ?k"
    using round_half_even_error [of ?x] kp by (simp add: mult_right_mono)
  also have "\<dots> = pow2 (?e - 53)"
  proof -
    have "pow2 ?k = pow2 1 * pow2 (?e - 53)" by (simp add: pow2_add [symmetric])
    then show ?thesis by (simp add: pow2_def)
  qed
  finally show "\<bar>r - v\<bar> \<le> pow2 (?e - 53)" .
qed

lemma round_double_overflow:
  assumes "pow2 1024 \<le> v"
  shows "round_double v = None"
proof -
  have v: "0 < v" using assms pow2_pos [of 1024] by linarith
  from floor_log2_bounds [OF v] assms have "pow2 1024 < pow2 (floor_log2 v + 1)" by linarith
  then have e: "1024 \<le> floor_log2 v" using pow2_less_cancel by fastforce
  then have e': "- 1022 \<le> floor_log2 v" by simp
  from pow2_mono [OF e] round_double_normal(2) [OF v e']
  have "pow2 1024 \<le> of_int (round_half_even (v / pow2 (floor_log2 v - 52))) * pow2 (floor_log2 v - 52)"
    by linarith
  then show ?thesis by (simp add: round_double_normal(1) [OF v e'])
qed

lemma round_double_ge_one:
  assumes "1 \<le> v" and "round_double v = Some r"
  shows "1 \<le> r"
proof -
  have v: "0 < v" using assms by linarith
  from floor_log2_bounds [OF v] assms have "pow2 0 < pow2 (floor_log2 v + 1)"
    by (simp add: pow2_def)
  then have e: "0 \<le> floor_log2 v" using pow2_less_cancel by fastforce
  then have e': "- 1022 \<le> floor_log2 v" by simp
  from round_double_normal(1) [OF v e'] assms(2)
  have "r = of_int (round_half_even (v / pow2 (floor_log2 v - 52))) * pow2 (floor_log2 v - 52)"
    by (simp split: if_splits)
  with round_double_normal(2) [OF v e'] pow2_mono [OF e] show ?thesis
    by (simp add: pow2_def)
qed

lemma round_double_error:
  assumes v: "0 < v" and r: "round_double v = Some r"
  shows "\<bar>r - v\<bar> \<le> max (v / 2 ^ 53) (1 / 2 ^ 1075)"
proof (cases "- 1022 \<le> floor_log2 v")
  case True
  from round_double_normal(1) [OF v True] r
  have "r = of_int (round_half_even (v / pow2 (floor_log2 v - 52))) * pow2 (floor_log2 v - 52)"
    by (simp split: if_splits)
  with round_double_normal(3) [OF v True] have "\<bar>r - v\<bar> \<le> pow2 (floor_log2 v - 53)" by simp
  also have "pow2 (floor_log2 v - 53) = pow2 (floor_log2 v) * pow2 (- 53)"
    by (simp add: pow2_add [symmetric])
  also have "\<dots> \<le> v * pow2 (- 53)"
    using floor_log2_bounds [OF v] pow2_pos [of "- 53"] by (simp add: mult_right_mono)
  also have "\<dots> = v / 2 ^ 53" by (simp add: pow2_def)
  finally show ?thesis by (rule max.coboundedI1)
next
  case False
  then have k: "max (floor_log2 v - 52) (- 1074) = - 1074" by simp
  let ?x = "v / pow2 (- 1074)"
  have kp: "0 < pow2 (- 1074)" by (rule pow2_pos)
  from r v have r': "r = of_int (round_half_even ?x) * pow2 (- 1074)"
    by (simp add: round_double_def k Let_def split: if_splits)
  have "r - v = (of_int (round_half_even ?x) - ?x) * pow2 (- 1074)"
    using kp by (simp add: r' algebra_simps)
  then have "\<bar>r - v\<bar> = \<bar>of_int (round_half_even ?x) - ?x\<bar> * pow2 (- 1074)"
    using kp by (simp add: abs_mult)
  also have "\<dots> \<le> (1 / 2) * pow2 (- 1074)"
    using round_half_even_error [of ?x] kp by (simp add: mult_right_mono)
  also have "\<dots> = 1 / 2 ^ 1075" by (simp add: pow2_def)
  finally show ?thesis by (rule max.coboundedI2)
qed

lemma round_half_even_le:
  assumes "x \<le> of_int N"
  shows "round_half_even x \<le> N"
proof (cases "x = of_int N")
  case True
  then show ?thesis by (simp add: round_half_even_def Let_def)
next
  case False
  with assms have "x < of_int N" by simp
  then have "\<lfloor>x\<rfloor> < N" by (simp add: floor_less_iff)
  moreover have "round_half_even x \<le> \<lfloor>x\<rfloor> + 1"
    by (simp add: round_half_even_def Let_def)
  ultimately show ?thesis by linarith
qed

lemma round_half_even_ge_even:
  assumes "even N"
  shows "N \<le> round_half_even x \<longleftrightarrow> of_int N - 1 / 2 \<le> x"
proof
  assume h: "N \<le> round_half_even x"
  have f: "of_int \<lfloor>x\<rfloor> \<le> x" by simp
  show "of_int N - 1 / 2 \<le> x"
  proof (cases "N \<le> \<lfloor>x\<rfloor>")
    case True
    then have "(of_int N :: rat) \<le> of_int \<lfloor>x\<rfloor>" by (simp only: of_int_le_iff)
    with f show ?thesis by linarith
  next
    case False
    have up: "round_half_even x \<le> \<lfloor>x\<rfloor> + 1" by (simp add: round_half_even_def Let_def)
    with h False have fl: "\<lfloor>x\<rfloor> = N - 1" by linarith
    with h have "round_half_even x \<noteq> \<lfloor>x\<rfloor>" by linarith
    then have "\<not> x - of_int \<lfloor>x\<rfloor> < 1 / 2"
      by (auto simp: round_half_even_def Let_def)
    then have "of_int \<lfloor>x\<rfloor> + 1 / 2 \<le> x" by linarith
    then show ?thesis by (simp add: fl)
  qed
next
  assume h: "of_int N - 1 / 2 \<le> x"
  show "N \<le> round_half_even x"
  proof (cases "N \<le> \<lfloor>x\<rfloor>")
    case True
    with floor_le_round_half_even [of x] show ?thesis by linarith
  next
    case False
    have "of_int (N - 1) \<le> x" using h by simp
    then have "N - 1 \<le> \<lfloor>x\<rfloor>" by (simp only: le_floor_iff)
    with False have fl: "\<lfloor>x\<rfloor> = N - 1" by linarith
    then have odd: "odd \<lfloor>x\<rfloor>" using assms by simp
    have d: "\<not> x - of_int \<lfloor>x\<rfloor> < 1 / 2" using h by (simp add: fl)
    from d odd have "round_half_even x = \<lfloor>x\<rfloor> + 1"
      by (simp add: round_half_even_def Let_def)
    then show ?thesis by (simp add: fl)
  qed
qed


lemma pow2_53: "pow2 53 = 9007199254740992"
  by (simp add: pow2_def)

lemma overflow_bound_facts:
  "float_overflow_bound = (of_int 9007199254740992 - 1 / 2) * pow2 971"
  "pow2 1024 = of_int 9007199254740992 * pow2 971"
  "pow2 1023 < float_overflow_bound"
  "float_overflow_bound \<le> pow2 1024"
  by (simp_all add: float_overflow_bound_def pow2_def)

lemma round_double_None_iff:
  assumes "0 \<le> v"
  shows "round_double v = None \<longleftrightarrow> float_overflow_bound \<le> v"
proof (cases "v = 0")
  case True
  have "0 < float_overflow_bound"
    using overflow_bound_facts(3) pow2_pos [of 1023] by linarith
  with True show ?thesis by (simp add: round_double_def)
next
  case False
  with assms have v: "0 < v" by simp
  let ?e = "floor_log2 v"
  from floor_log2_bounds [OF v] have lo: "pow2 ?e \<le> v" and hi: "v < pow2 (?e + 1)" by simp_all
  consider "1024 \<le> ?e" | "?e = 1023" | "?e \<le> 1022" by linarith
  then show ?thesis
  proof cases
    case 1
    from pow2_mono [OF 1] lo have "pow2 1024 \<le> v" by linarith
    with round_double_overflow [OF this] overflow_bound_facts(4) show ?thesis by simp
  next
    case 2
    let ?x = "v / pow2 971"
    have kp: "0 < pow2 971" by (rule pow2_pos)
    have e': "- 1022 \<le> ?e" using 2 by simp
    from round_double_normal(1) [OF v e']
    have "round_double v = None \<longleftrightarrow> pow2 1024 \<le> of_int (round_half_even ?x) * pow2 971"
      by (simp add: 2)
    also have "\<dots> \<longleftrightarrow> (of_int 9007199254740992 :: rat) \<le> of_int (round_half_even ?x)"
      using kp by (simp only: overflow_bound_facts(2) mult_le_cancel_right_pos)
    also have "\<dots> \<longleftrightarrow> 9007199254740992 \<le> round_half_even ?x"
      by (simp only: of_int_le_iff)
    also have "\<dots> \<longleftrightarrow> of_int 9007199254740992 - 1 / 2 \<le> ?x"
      by (rule round_half_even_ge_even) simp
    also have "\<dots> \<longleftrightarrow> (of_int 9007199254740992 - 1 / 2) * pow2 971 \<le> v"
      using kp by (simp only: pos_le_divide_eq)
    also have "\<dots> \<longleftrightarrow> float_overflow_bound \<le> v"
      by (simp only: overflow_bound_facts(1))
    finally show ?thesis .
  next
    case 3
    define k where "k = max (?e - 52) (- 1074)"
    let ?x = "v / pow2 k"
    have kp: "0 < pow2 k" by (rule pow2_pos)
    have k1: "?e + 1 - k \<le> 53" and k2: "53 + k \<le> 1023" using 3 by (simp_all add: k_def)
    have "pow2 (?e + 1) = pow2 (?e + 1 - k) * pow2 k" by (simp add: pow2_add [symmetric])
    with hi kp have "?x < pow2 (?e + 1 - k)" by (simp add: pos_divide_less_eq)
    with pow2_mono [OF k1] have "?x \<le> of_int 9007199254740992" by (simp add: pow2_53)
    then have "round_half_even ?x \<le> 9007199254740992" by (rule round_half_even_le)
    then have "(of_int (round_half_even ?x) :: rat) \<le> of_int 9007199254740992"
      by (simp only: of_int_le_iff)
    then have "of_int (round_half_even ?x) * pow2 k \<le> pow2 53 * pow2 k"
      using kp by (simp add: pow2_53)
    also have "\<dots> = pow2 (53 + k)" by (simp add: pow2_add)
    also have "\<dots> \<le> pow2 1023" using k2 by (rule pow2_mono)
    also have "\<dots> < pow2 1024" using overflow_bound_facts(3,4) by linarith
    finally have "\<not> pow2 1024 \<le> of_int (round_half_even ?x) * pow2 k" by simp
    then have some: "round_double v \<noteq> None"
      using False by (simp add: round_double_def k_def Let_def)
    have "?e + 1 \<le> 1023" using 3 by simp
    from pow2_mono [OF this] hi overflow_bound_facts(3) have "\<not> float_overflow_bound \<le> v"
      by linarith
    with some show ?thesis by simp
  qed
qed

lemma round_double_in_range:
  assumes "0 \<le> v" and "v < float_overflow_bound"
  shows "\<exists>r. round_double v = Some r \<and> \<bar>r - v\<bar> \<le> max (v / 2 ^ 53) (1 / 2 ^ 1075)"
proof -
  from round_double_None_iff [OF assms(1)] assms(2) obtain r where r: "round_double v = Some r"
    by (cases "round_double v") auto
  show ?thesis
  proof (cases "v = 0")
    case True
    then show ?thesis by (simp add: round_double_def)
  next
    case False
    with assms(1) have "0 < v" by simp
    from round_double_error [OF this r] r show ?thesis by simp
  qed
qed

section \<open>Division\<close>


lemma float_of_int_cases:
  "(\<exists>m. float_of_int i = Inl (OverflowError m)) \<or> (\<exists>r. float_of_int i = Inr (Finite (i < 0) r) \<and> (i \<noteq> 0 \<longrightarrow> 1 \<le> r))"
proof (cases "round_double (of_int \<bar>i\<bar>)")
  case None
  then show ?thesis by (simp add: float_of_int_def)
next
  case (Some r)
  have "i \<noteq> 0 \<longrightarrow> 1 \<le> r"
  proof
    assume "i \<noteq> 0"
    then have "1 \<le> \<bar>i\<bar>" by simp
    then have "(1::rat) \<le> of_int \<bar>i\<bar>" by (simp only: of_int_1_le_iff)
    then show "1 \<le> r" using Some by (rule round_double_ge_one)
  qed
  with Some show ?thesis by (simp add: float_of_int_def)
qed

lemma fdiv_cases:
  "fdiv x y = Inl e \<Longrightarrow> e = ZeroDivisionError ''float division by zero'' \<and> (\<exists>t. y = Finite t 0)"
  by (cases x; cases y) (auto split: if_splits)

lemma py_truediv_cases:
  assumes "is_number a" "is_number b" "\<not> py_eq b (PInt 0)"
  shows "(\<exists>x. py_truediv a b = Inr (PFloat x))
       \<or> ((\<exists>m. py_truediv a b = Inl (OverflowError m)) \<and> (isinstance_int a \<or> isinstance_int b))"
proof -
  from assms(1) consider i where "a = PInt i" | x where "a = PFloat x"
    by (auto simp: is_number_cases)
  then show ?thesis
  proof cases
    case 1
    from assms(2) consider j where "b = PInt j" | y where "b = PFloat y"
      by (auto simp: is_number_cases)
    then show ?thesis
    proof cases
      case 1
      with \<open>a = PInt i\<close> assms(3) show ?thesis
        by (auto simp: py_truediv_def int_truediv_def split: option.splits)
    next
      case 2
      with assms(3) have y: "\<And>t. y \<noteq> Finite t 0" by (auto split: if_splits)
      from float_of_int_cases [of i] show ?thesis
      proof
        assume "\<exists>m. float_of_int i = Inl (OverflowError m)"
        with 2 \<open>a = PInt i\<close> show ?thesis by (auto simp: py_truediv_def float_binop_def)
      next
        assume "\<exists>r. float_of_int i = Inr (Finite (i < 0) r) \<and> (i \<noteq> 0 \<longrightarrow> 1 \<le> r)"
        then obtain r where r: "float_of_int i = Inr (Finite (i < 0) r)" by blast
        show ?thesis
        proof (cases "fdiv (Finite (i < 0) r) y")
          case (Inl e)
          with fdiv_cases [OF Inl] y show ?thesis by blast
        next
          case (Inr z)
          with 2 \<open>a = PInt i\<close> r show ?thesis by (simp add: py_truediv_def float_binop_def)
        qed
      qed
    qed
  next
    case 2
    from assms(2) consider j where "b = PInt j" | y where "b = PFloat y"
      by (auto simp: is_number_cases)
    then show ?thesis
    proof cases
      case 1
      with assms(3) have j: "j \<noteq> 0" by auto
      from float_of_int_cases [of j] show ?thesis
      proof
        assume "\<exists>m. float_of_int j = Inl (OverflowError m)"
        with 1 \<open>a = PFloat x\<close> show ?thesis by (auto simp: py_truediv_def float_binop_def)
      next
        assume "\<exists>r. float_of_int j = Inr (Finite (j < 0) r) \<and> (j \<noteq> 0 \<longrightarrow> 1 \<le> r)"
        then obtain r where r: "float_of_int j = Inr (Finite (j < 0) r)" and "1 \<le> r"
          using j by blast
        then have "r \<noteq> 0" by simp
        show ?thesis
        proof (cases "fdiv x (Finite (j < 0) r)")
          case (Inl e)
          with fdiv_cases [OF Inl] \<open>r \<noteq> 0\<close> show ?thesis by blast
        next
          case (Inr z)
          with 1 \<open>a = PFloat x\<close> r show ?thesis by (simp add: py_truediv_def float_binop_def)
        qed
      qed
    next
      case 2
      with assms(3) have y: "\<And>t. y \<noteq> Finite t 0" by (auto split: if_splits)
      show ?thesis
      proof (cases "fdiv x y")
        case (Inl e)
        with fdiv_cases [OF Inl] y show ?thesis by blast
      next
        case (Inr z)
        with 2 \<open>a = PFloat x\<close> show ?thesis by (simp add: py_truediv_def float_binop_def)
      qed
    qed
  qed
qed

lemma int_truediv_range:
  assumes "j \<noteq> 0"
  shows "if float_overflow_bound \<le> \<bar>of_int i / of_int j\<bar>
         then int_truediv i j = Inl (OverflowError ''integer division result too large for a float'')
         else \<exists>r. int_truediv i j = Inr (Finite ((i < 0) \<noteq> (j < 0)) r)
                \<and> round_double \<bar>of_int i / of_int j\<bar> = Some r
                \<and> \<bar>r - \<bar>of_int i / of_int j\<bar>\<bar>
                    \<le> max (\<bar>of_int i / of_int j\<bar> / 2 ^ 53) (1 / 2 ^ 1075)"
proof -
  let ?v = "\<bar>of_int i / of_int j\<bar> :: rat"
  have v: "of_int \<bar>i\<bar> / of_int \<bar>j\<bar> = ?v" by simp
  have nn: "0 \<le> ?v" by simp
  show ?thesis
  proof (cases "float_overflow_bound \<le> ?v")
    case True
    with round_double_None_iff [OF nn] have "round_double ?v = None" by simp
    with True assms show ?thesis by (simp only: int_truediv_def v) simp
  next
    case False
    then have "?v < float_overflow_bound" by simp
    from round_double_in_range [OF nn this] obtain r
      where r: "round_double ?v = Some r" "\<bar>r - ?v\<bar> \<le> max (?v / 2 ^ 53) (1 / 2 ^ 1075)"
      by blast
    have "int_truediv i j = Inr (Finite ((i < 0) \<noteq> (j < 0)) r)"
      using assms r(1) by (simp only: int_truediv_def v) simp
    with False r show ?thesis by (simp only: if_False) blast
  qed
qed

lemma float_of_int_range:
  "if float_overflow_bound \<le> \<bar>of_int i\<bar>
   then float_of_int i = Inl (OverflowError ''int too large to convert to float'')
   else \<exists>r. float_of_int i = Inr (Finite (i < 0) r) \<and> round_double \<bar>of_int i\<bar> = Some r"
proof -
  let ?v = "\<bar>of_int i\<bar> :: rat"
  have v: "of_int \<bar>i\<bar> = ?v" by simp
  have nn: "0 \<le> ?v" by simp
  show ?thesis
  proof (cases "float_overflow_bound \<le> ?v")
    case True
    with round_double_None_iff [OF nn] have "round_double ?v = None" by simp
    with True show ?thesis by (simp only: float_of_int_def v) simp
  next
    case False
    then have "?v < float_overflow_bound" by simp
    from round_double_in_range [OF nn this] obtain r where r: "round_double ?v = Some r"
      by blast
    have "float_of_int i = Inr (Finite (i < 0) r)"
      using r by (simp only: float_of_int_def v) simp
    with False r show ?thesis by (simp only: if_False) blast
  qed
qed

lemma float_of_mag_range:
  assumes "0 \<le> v"
  shows "if float_overflow_bound \<le> v then float_of_mag s v = Infinite s
         else \<exists>r. float_of_mag s v = Finite s r \<and> round_double v = Some r
                \<and> \<bar>r - v\<bar> \<le> max (v / 2 ^ 53) (1 / 2 ^ 1075)"
proof (cases "float_overflow_bound \<le> v")
  case True
  with round_double_None_iff [OF assms] show ?thesis by (simp add: float_of_mag_def)
next
  case False
  then have "v < float_overflow_bound" by simp
  from round_double_in_range [OF assms this] False show ?thesis
    by (auto simp: float_of_mag_def)
qed

lemma py_truediv_no_zero_error:
  assumes "is_number a" "is_number b" "\<not> py_eq b (PInt 0)"
  shows "py_truediv a b \<noteq> Inl (ZeroDivisionError m)"
  using py_truediv_cases [OF assms] by auto

text \<open>
  Claim C4. In \<^verbatim>\<open>divide_numbers\<close> the validation comes first: an operand that is
  not a number, or is a boolean, gives \<^verbatim>\<open>ValueError\<close> also when \<open>b\<close> is zero,
  and \<^verbatim>\<open>ZeroDivisionError\<close> is raised only for two validated numbers.
\<close>

theorem validation_before_zero_check:
  "(\<not> isinstance_int_float a \<or> \<not> isinstance_int_float b
      \<or> isinstance_bool a \<or> isinstance_bool b
      \<longrightarrow> raises_ValueError (divide_numbers a b))
   \<and> (divide_numbers a b = Inl (ZeroDivisionError m)
      \<longrightarrow> is_number a \<and> is_number b \<and> py_eq b (PInt 0))"
  using py_truediv_no_zero_error [of a b m]
  by (auto simp: divide_numbers_def is_number_def)

theorem validation_before_zero_check_witness:
  "divide_numbers (PStr ''ten'') (PInt 0)
     = Inl (ValueError ''Both inputs must be integers or floats'')
   \<and> divide_numbers (PBool True) (PInt 0) = Inl (ValueError ''Boolean values are not allowed'')
   \<and> divide_numbers (PInt 10) (PInt 0) = Inl (ZeroDivisionError ''Cannot divide by zero'')
   \<and> is_number (PInt 10) \<and> is_number (PInt 0)"
  using validation_before_zero_check [of "PStr ''ten''" "PInt 0" "''Cannot divide by zero''"]
    validation_before_zero_check [of "PBool True" "PInt 0" "''Cannot divide by zero''"]
    validation_before_zero_check [of "PInt 10" "PInt 0" "''Cannot divide by zero''"]
  by (simp add: divide_numbers_def)

text \<open>
  Claim C1, as stated, fails: the true division of two integers raises
  \<^verbatim>\<open>OverflowError\<close> when the quotient is beyond the float range, so a non-zero
  divisor does not always give a returned value.
\<close>

theorem divide_numbers_overflow_counterexample:
  "is_number (PInt (2 ^ 1024)) \<and> is_number (PInt 1) \<and> \<not> py_eq (PInt 1) (PInt 0)
   \<and> divide_numbers (PInt (2 ^ 1024)) (PInt 1)
       = Inl (OverflowError ''integer division result too large for a float'')"
proof -
  have "round_double (2 ^ 1024) = None"
    by (rule round_double_overflow) (simp add: pow2_def)
  then show ?thesis
    by (simp add: is_number_def divide_numbers_def py_truediv_def int_truediv_def)
qed

text \<open>
  Claim C1, amended. For numbers \<open>a\<close> and \<open>b\<close> that are not booleans,
  \<^verbatim>\<open>divide_numbers(a, b)\<close> raises \<^verbatim>\<open>ZeroDivisionError\<close> exactly when \<open>b == 0\<close>.
  When \<open>b\<close> is not zero it returns \<open>a / b\<close> as a float, unless an integer operand
  or the quotient of two integers is beyond the float range, where it raises
  \<^verbatim>\<open>OverflowError\<close>:
  \<^item> two integers: \<^verbatim>\<open>OverflowError\<close> when the magnitude of the exact quotient
    reaches \<open>float_overflow_bound\<close>; below it, the float with the sign of the quotient
    and the rounded magnitude, within half a unit in the last place of the exact one;
  \<^item> two floats: the result of the float division, never an error; for finite
    operands it is the rounded exact quotient, or an infinity from the bound on;
  \<^item> an integer and a float: \<^verbatim>\<open>OverflowError\<close> when the magnitude of the integer
    reaches the bound; below it, the float division of the rounded integer and the
    float.
\<close>

theorem divide_numbers_cases:
  assumes "is_number a" and "is_number b"
  shows "((\<exists>m. divide_numbers a b = Inl (ZeroDivisionError m)) \<longleftrightarrow> py_eq b (PInt 0))
   \<and> (\<not> py_eq b (PInt 0) \<longrightarrow>
        (\<forall>i j. a = PInt i \<and> b = PInt j \<longrightarrow>
           (if float_overflow_bound \<le> \<bar>of_int i / of_int j\<bar>
            then divide_numbers a b
                   = Inl (OverflowError ''integer division result too large for a float'')
            else \<exists>r. divide_numbers a b = Inr (PFloat (Finite ((i < 0) \<noteq> (j < 0)) r))
                   \<and> round_double \<bar>of_int i / of_int j\<bar> = Some r
                   \<and> \<bar>r - \<bar>of_int i / of_int j\<bar>\<bar>
                       \<le> max (\<bar>of_int i / of_int j\<bar> / 2 ^ 53) (1 / 2 ^ 1075)))
      \<and> (\<forall>x y. a = PFloat x \<and> b = PFloat y \<longrightarrow>
           (\<exists>z. fdiv x y = Inr z \<and> divide_numbers a b = Inr (PFloat z)))
      \<and> (\<forall>s u t w. a = PFloat (Finite s u) \<and> b = PFloat (Finite t w) \<and> 0 \<le> u \<and> 0 \<le> w \<longrightarrow>
           (if float_overflow_bound \<le> u / w
            then divide_numbers a b = Inr (PFloat (Infinite (s \<noteq> t)))
            else \<exists>r. divide_numbers a b = Inr (PFloat (Finite (s \<noteq> t) r))
                   \<and> round_double (u / w) = Some r
                   \<and> \<bar>r - u / w\<bar> \<le> max (u / w / 2 ^ 53) (1 / 2 ^ 1075)))
      \<and> (\<forall>i y. a = PInt i \<and> b = PFloat y \<longrightarrow>
           (if float_overflow_bound \<le> \<bar>of_int i\<bar>
            then divide_numbers a b = Inl (OverflowError ''int too large to convert to float'')
            else \<exists>r z. round_double \<bar>of_int i\<bar> = Some r \<and> fdiv (Finite (i < 0) r) y = Inr z
                     \<and> divide_numbers a b = Inr (PFloat z)))
      \<and> (\<forall>x j. a = PFloat x \<and> b = PInt j \<longrightarrow>
           (if float_overflow_bound \<le> \<bar>of_int j\<bar>
            then divide_numbers a b = Inl (OverflowError ''int too large to convert to float'')
            else \<exists>r z. round_double \<bar>of_int j\<bar> = Some r \<and> fdiv x (Finite (j < 0) r) = Inr z
                     \<and> divide_numbers a b = Inr (PFloat z))))"
proof -
  have guard: "divide_numbers a b =
      (if py_eq b (PInt 0) then Inl (ZeroDivisionError ''Cannot divide by zero'')
       else py_truediv a b)"
    using assms by (simp add: divide_numbers_def is_number_def)
  have zero: "(\<exists>m. divide_numbers a b = Inl (ZeroDivisionError m)) \<longleftrightarrow> py_eq b (PInt 0)"
    using py_truediv_no_zero_error [OF assms] by (auto simp: guard)
  have ii: "if float_overflow_bound \<le> \<bar>of_int i / of_int j\<bar>
            then divide_numbers a b
                   = Inl (OverflowError ''integer division result too large for a float'')
            else \<exists>r. divide_numbers a b = Inr (PFloat (Finite ((i < 0) \<noteq> (j < 0)) r))
                   \<and> round_double \<bar>of_int i / of_int j\<bar> = Some r
                   \<and> \<bar>r - \<bar>of_int i / of_int j\<bar>\<bar>
                       \<le> max (\<bar>of_int i / of_int j\<bar> / 2 ^ 53) (1 / 2 ^ 1075)"
    if nz: "\<not> py_eq b (PInt 0)" and ab: "a = PInt i \<and> b = PInt j" for i j
  proof -
    from nz ab have j: "j \<noteq> 0" by auto
    have d: "divide_numbers a b
               = (case int_truediv i j of Inl e \<Rightarrow> Inl e | Inr z \<Rightarrow> Inr (PFloat z))"
      using nz ab unfolding guard by (simp add: py_truediv_def)
    from int_truediv_range [OF j, of i] show ?thesis
      by (auto simp: d split: if_splits)
  qed
  have ff: "\<exists>z. fdiv x y = Inr z \<and> divide_numbers a b = Inr (PFloat z)"
    if nz: "\<not> py_eq b (PInt 0)" and ab: "a = PFloat x \<and> b = PFloat y" for x y
  proof (cases "fdiv x y")
    case (Inl e)
    from fdiv_cases [OF Inl] nz ab show ?thesis by (auto split: if_splits)
  next
    case (Inr z)
    with nz ab show ?thesis unfolding guard by (simp add: py_truediv_def float_binop_def)
  qed
  have fin: "if float_overflow_bound \<le> u / w
            then divide_numbers a b = Inr (PFloat (Infinite (s \<noteq> t)))
            else \<exists>r. divide_numbers a b = Inr (PFloat (Finite (s \<noteq> t) r))
                   \<and> round_double (u / w) = Some r
                   \<and> \<bar>r - u / w\<bar> \<le> max (u / w / 2 ^ 53) (1 / 2 ^ 1075)"
    if nz: "\<not> py_eq b (PInt 0)"
      and ab: "a = PFloat (Finite s u) \<and> b = PFloat (Finite t w) \<and> 0 \<le> u \<and> 0 \<le> w"
    for s u t w
  proof -
    from nz ab have w: "w \<noteq> 0" by (auto split: if_splits)
    with ab have "0 \<le> u / w" by simp
    from float_of_mag_range [OF this, of "s \<noteq> t"] w nz ab show ?thesis
      unfolding guard by (auto simp: py_truediv_def float_binop_def split: if_splits)
  qed
  have "if": "if float_overflow_bound \<le> \<bar>of_int i\<bar>
            then divide_numbers a b = Inl (OverflowError ''int too large to convert to float'')
            else \<exists>r z. round_double \<bar>of_int i\<bar> = Some r \<and> fdiv (Finite (i < 0) r) y = Inr z
                     \<and> divide_numbers a b = Inr (PFloat z)"
    if nz: "\<not> py_eq b (PInt 0)" and ab: "a = PInt i \<and> b = PFloat y" for i y
  proof (cases "float_overflow_bound \<le> \<bar>of_int i :: rat\<bar>")
    case True
    with float_of_int_range [of i] nz ab show ?thesis
      unfolding guard by (simp add: py_truediv_def float_binop_def)
  next
    case False
    with float_of_int_range [of i] obtain r
      where r: "float_of_int i = Inr (Finite (i < 0) r)" "round_double \<bar>of_int i\<bar> = Some r"
      by auto
    show ?thesis
    proof (cases "fdiv (Finite (i < 0) r) y")
      case (Inl e)
      from fdiv_cases [OF Inl] nz ab show ?thesis by (auto split: if_splits)
    next
      case (Inr z)
      with False r nz ab show ?thesis unfolding guard by (simp add: py_truediv_def float_binop_def)
    qed
  qed
  have fi: "if float_overflow_bound \<le> \<bar>of_int j\<bar>
            then divide_numbers a b = Inl (OverflowError ''int too large to convert to float'')
            else \<exists>r z. round_double \<bar>of_int j\<bar> = Some r \<and> fdiv x (Finite (j < 0) r) = Inr z
                     \<and> divide_numbers a b = Inr (PFloat z)"
    if nz: "\<not> py_eq b (PInt 0)" and ab: "a = PFloat x \<and> b = PInt j" for x j
  proof (cases "float_overflow_bound \<le> \<bar>of_int j :: rat\<bar>")
    case True
    with float_of_int_range [of j] nz ab show ?thesis
      unfolding guard by (simp add: py_truediv_def float_binop_def)
  next
    case False
    with float_of_int_range [of j] obtain r
      where r: "float_of_int j = Inr (Finite (j < 0) r)" "round_double \<bar>of_int j\<bar> = Some r"
      by auto
    from nz ab have "j \<noteq> 0" by auto
    with float_of_int_cases [of j] r(1) have "r \<noteq> 0" by auto
    show ?thesis
    proof (cases "fdiv x (Finite (j < 0) r)")
      case (Inl e)
      from fdiv_cases [OF Inl] \<open>r \<noteq> 0\<close> show ?thesis by auto
    next
      case (Inr z)
      with False r nz ab show ?thesis unfolding guard by (simp add: py_truediv_def float_binop_def)
    qed
  qed
  from zero ii ff fin "if" fi show ?thesis by blast
qed

lemma floor_log2_5: "floor_log2 5 = 2"
  by (simp add: floor_log2_def pow2_def bitlen_def Let_def compute_floorlog)

lemma round_double_5: "round_double 5 = Some 5"
  by (simp add: round_double_def floor_log2_5 pow2_def round_half_even_def Let_def)

theorem divide_numbers_cases_witness:
  "is_number (PInt 10) \<and> is_number (PInt 2) \<and> is_number (PInt 0)
   \<and> \<not> py_eq (PInt 2) (PInt 0)
   \<and> \<not> float_overflow_bound \<le> \<bar>of_int 10 / of_int 2\<bar>
   \<and> divide_numbers (PInt 10) (PInt 2) = Inr (PFloat (Finite False 5))
   \<and> (\<exists>m. divide_numbers (PInt 10) (PInt 0) = Inl (ZeroDivisionError m))"
proof -
  have n: "is_number (PInt 10)" "is_number (PInt 2)" "is_number (PInt 0)"
    by (simp_all add: is_number_def)
  have b: "\<not> float_overflow_bound \<le> \<bar>of_int 10 / of_int 2\<bar>"
    by (simp add: float_overflow_bound_def)
  from divide_numbers_cases [OF n(1) n(2)] b
  have "\<exists>r. divide_numbers (PInt 10) (PInt 2) = Inr (PFloat (Finite False r))
           \<and> round_double \<bar>of_int 10 / of_int 2\<bar> = Some r"
    by auto
  then have "divide_numbers (PInt 10) (PInt 2) = Inr (PFloat (Finite False 5))"
    by (auto simp: round_double_5)
  with divide_numbers_cases [OF n(1) n(3)] n b show ?thesis by simp
qed

section \<open>Float operands\<close>

text \<open>
  Claim C9, as stated, fails at the float not-a-number: \<^verbatim>\<open>absolute_value\<close> accepts
  it and returns it, and it is not \<open>\<ge> 0\<close>.
\<close>

theorem absolute_value_nan_counterexample:
  "is_number (PFloat NaN) \<and> absolute_value (PFloat NaN) = Inr (PFloat NaN)
   \<and> \<not> py_ge_int (PFloat NaN) 0"
  by (simp add: is_number_def absolute_value_def)

text \<open>
  Claim C9, amended. For every number \<open>n\<close> that is not a boolean,
  \<^verbatim>\<open>absolute_value(n)\<close> and \<^verbatim>\<open>absolute_value(-n)\<close> return the same value, and
  unless \<open>n\<close> is the float not-a-number this value is \<open>\<ge> 0\<close> and compares equal
  to itself.
\<close>

theorem absolute_value_sign:
  assumes "is_number n" and "\<forall>x. n = PFloat x \<longrightarrow> float_ok x"
  shows "\<exists>v m. absolute_value n = Inr v \<and> py_neg n = Inr m \<and> absolute_value m = Inr v
           \<and> (n \<noteq> PFloat NaN \<longrightarrow> py_ge_int v 0 \<and> py_eq v v)"
proof -
  from assms(1) consider i where "n = PInt i" | x where "n = PFloat x"
    by (auto simp: is_number_cases)
  then show ?thesis
  proof cases
    case 1
    then show ?thesis by (simp add: absolute_value_def)
  next
    case 2
    with assms(2) have "float_ok x" by simp
    with 2 show ?thesis by (cases x) (simp_all add: absolute_value_def)
  qed
qed

theorem absolute_value_sign_witness:
  "is_number (PInt (- 5)) \<and> absolute_value (PInt (- 5)) = Inr (PInt 5)
   \<and> py_neg (PInt (- 5)) = Inr (PInt 5) \<and> absolute_value (PInt 5) = Inr (PInt 5)
   \<and> py_ge_int (PInt 5) 0
   \<and> float_ok (Finite True (5 / 2))
   \<and> absolute_value (PFloat (Finite True (5 / 2))) = Inr (PFloat (Finite False (5 / 2)))
   \<and> py_ge_int (PFloat (Finite False (5 / 2))) 0"
  using absolute_value_sign [of "PInt (- 5)"] absolute_value_sign [of "PFloat (Finite True (5 / 2))"]
  by (simp add: is_number_def absolute_value_def)

text \<open>
  Claim C10, as stated, fails for \<^verbatim>\<open>divide_numbers\<close>: with the float divisor
  \<^verbatim>\<open>0.0\<close> it raises \<^verbatim>\<open>ZeroDivisionError\<close> and returns no result.
\<close>

theorem divide_float_zero_counterexample:
  "divide_numbers (PFloat (Finite False 1)) (PFloat (Finite False 0))
     = Inl (ZeroDivisionError ''Cannot divide by zero'')"
  by (simp add: divide_numbers_def)

lemma float_binop_not_ValueError:
  assumes "is_number a" and "is_number b"
  shows "\<not> raises_ValueError (float_binop (\<lambda>x y. Inr (f x y)) a b)"
proof -
  have tf: "(\<exists>m. to_float v = Inl (OverflowError m)) \<or> (\<exists>x. to_float v = Inr x)"
    if "is_number v" for v
  proof -
    from that consider i where "v = PInt i" | x where "v = PFloat x"
      by (auto simp: is_number_cases)
    then show ?thesis
    proof cases
      case 1
      with float_of_int_cases [of i] show ?thesis by auto
    next
      case 2
      then show ?thesis by simp
    qed
  qed
  from tf [OF assms(1)] tf [OF assms(2)] show ?thesis
    by (auto simp: float_binop_def)
qed

text \<open>
  Claim C10, amended. On float operands none of the six functions raises
  \<^verbatim>\<open>ValueError\<close>: \<^verbatim>\<open>add_numbers\<close>, \<^verbatim>\<open>subtract_numbers\<close>,
  \<^verbatim>\<open>multiply_numbers\<close>, \<^verbatim>\<open>square\<close> and \<^verbatim>\<open>absolute_value\<close> return the float
  result, and \<^verbatim>\<open>divide_numbers\<close> returns the float quotient unless the divisor is
  zero, where it raises \<^verbatim>\<open>ZeroDivisionError\<close>. With a float and an integer
  operand they do not raise \<^verbatim>\<open>ValueError\<close> either.
\<close>

theorem float_operands_accepted:
  "add_numbers (PFloat x) (PFloat y) = Inr (PFloat (fadd x y))
   \<and> subtract_numbers (PFloat x) (PFloat y) = Inr (PFloat (fsub x y))
   \<and> multiply_numbers (PFloat x) (PFloat y) = Inr (PFloat (fmul x y))
   \<and> square (PFloat x) = Inr (PFloat (fmul x x))
   \<and> absolute_value (PFloat x) = Inr (PFloat (fabs x))
   \<and> (float_eq_int y 0 \<longrightarrow>
        divide_numbers (PFloat x) (PFloat y) = Inl (ZeroDivisionError ''Cannot divide by zero''))
   \<and> (\<not> float_eq_int y 0 \<longrightarrow>
        (\<exists>z. fdiv x y = Inr z \<and> divide_numbers (PFloat x) (PFloat y) = Inr (PFloat z)))
   \<and> (is_number a \<and> is_number b \<longrightarrow>
        \<not> raises_ValueError (add_numbers a b) \<and> \<not> raises_ValueError (subtract_numbers a b)
      \<and> \<not> raises_ValueError (multiply_numbers a b) \<and> \<not> raises_ValueError (divide_numbers a b)
      \<and> \<not> raises_ValueError (square a) \<and> \<not> raises_ValueError (absolute_value a))"
proof (intro conjI impI)
  show "add_numbers (PFloat x) (PFloat y) = Inr (PFloat (fadd x y))"
    by (simp add: add_numbers_def py_add_def float_binop_def)
  show "subtract_numbers (PFloat x) (PFloat y) = Inr (PFloat (fsub x y))"
    by (simp add: subtract_numbers_def py_sub_def float_binop_def)
  show "multiply_numbers (PFloat x) (PFloat y) = Inr (PFloat (fmul x y))"
    by (simp add: multiply_numbers_def py_mul_def float_binop_def)
  show "square (PFloat x) = Inr (PFloat (fmul x x))"
    by (simp add: square_def py_mul_def float_binop_def)
  show "absolute_value (PFloat x) = Inr (PFloat (fabs x))"
    by (simp add: absolute_value_def)
  show "divide_numbers (PFloat x) (PFloat y) = Inl (ZeroDivisionError ''Cannot divide by zero'')"
    if "float_eq_int y 0"
    using that by (simp add: divide_numbers_def)
  show "\<exists>z. fdiv x y = Inr z \<and> divide_numbers (PFloat x) (PFloat y) = Inr (PFloat z)"
    if "\<not> float_eq_int y 0"
  proof (cases "fdiv x y")
    case (Inl e)
    from fdiv_cases [OF Inl] that show ?thesis by (auto split: if_splits)
  next
    case (Inr z)
    with that show ?thesis
      by (simp add: divide_numbers_def py_truediv_def float_binop_def)
  qed
next
  assume n: "is_number a \<and> is_number b"
  then have a: "is_number a" and b: "is_number b" by simp_all
  have g: "isinstance_int_float a" "isinstance_int_float b" "\<not> isinstance_bool a" "\<not> isinstance_bool b"
    using n by (simp_all add: is_number_def)
  have ints: "\<And>i j. \<not> raises_ValueError (Inr (PInt i) :: pyerror + pyval)" by simp
  show "\<not> raises_ValueError (add_numbers a b)"
    using float_binop_not_ValueError [OF a b, of fadd] g
    by (auto simp: add_numbers_def py_add_def split: option.splits)
  show "\<not> raises_ValueError (subtract_numbers a b)"
    using float_binop_not_ValueError [OF a b, of fsub] g
    by (auto simp: subtract_numbers_def py_sub_def split: option.splits)
  show "\<not> raises_ValueError (multiply_numbers a b)"
    using float_binop_not_ValueError [OF a b, of fmul] g
    by (auto simp: multiply_numbers_def py_mul_def split: option.splits)
  show "\<not> raises_ValueError (divide_numbers a b)"
  proof (cases "py_eq b (PInt 0)")
    case True
    with g show ?thesis by (simp add: divide_numbers_def)
  next
    case False
    from py_truediv_cases [OF a b False] False g show ?thesis
      by (auto simp: divide_numbers_def)
  qed
  show "\<not> raises_ValueError (square a)"
    using float_binop_not_ValueError [OF a a, of fmul] g
    by (auto simp: square_def py_mul_def split: option.splits)
  show "\<not> raises_ValueError (absolute_value a)"
    using a by (auto simp: is_number_cases absolute_value_def)
qed

theorem float_operands_accepted_witness:
  "absolute_value (PFloat (Finite True (5 / 2))) = Inr (PFloat (Finite False (5 / 2)))
   \<and> add_numbers (PFloat (Infinite False)) (PFloat (Infinite True)) = Inr (PFloat NaN)
   \<and> \<not> float_eq_int (Infinite False) 0
   \<and> divide_numbers (PFloat (Finite False 1)) (PFloat (Infinite False))
       = Inr (PFloat (Finite False 0))
   \<and> is_number (PFloat NaN) \<and> is_number (PInt 3)
   \<and> \<not> raises_ValueError (multiply_numbers (PFloat NaN) (PInt 3))"
  using float_operands_accepted [of "Finite True (5 / 2)" "Finite False 0" "PInt 1" "PInt 1"]
    float_operands_accepted [of "Infinite False" "Infinite True" "PInt 1" "PInt 1"]
    float_operands_accepted [of "Finite False 1" "Infinite False" "PFloat NaN" "PInt 3"]
  by (simp add: is_number_def)

section \<open>The HTTP layer\<close>

text \<open>
  Claim C6. In each of the four two-parameter endpoints, when the query parameter
  \<open>a\<close> or \<open>b\<close> is absent the view returns status 400 with the body
  \<^verbatim>\<open>{"error": "Parameters 'a' and 'b' are required"}\<close>. The answer is the same
  for every operation function put in the place of the one the view calls, so that
  function takes no part in it.
\<close>

theorem missing_parameter_400:
  assumes "params ''a'' = None \<or> params ''b'' = None"
  shows "let r = Inr \<lparr>body = JObj [(''error'', JStr ''Parameters 'a' and 'b' are required'')],
                      status = 400\<rparr>
         in add_with op1 now params = r \<and> subtract_with op2 now params = r
          \<and> multiply_with op3 now params = r \<and> divide_with op4 now params = r
          \<and> add now params = r \<and> subtract now params = r
          \<and> multiply now params = r \<and> divide_view now params = r"
proof -
  have "add_with op now params
          = Inr \<lparr>body = JObj [(''error'', JStr ''Parameters 'a' and 'b' are required'')],
                 status = 400\<rparr>" for op
    using assms by (auto simp: add_with_def add_try_def split: option.splits)
  moreover have "subtract_with op now params
          = Inr \<lparr>body = JObj [(''error'', JStr ''Parameters 'a' and 'b' are required'')],
                 status = 400\<rparr>" for op
    using assms by (auto simp: subtract_with_def subtract_try_def split: option.splits)
  moreover have "multiply_with op now params
          = Inr \<lparr>body = JObj [(''error'', JStr ''Parameters 'a' and 'b' are required'')],
                 status = 400\<rparr>" for op
    using assms by (auto simp: multiply_with_def multiply_try_def split: option.splits)
  moreover have "divide_with op now params
          = Inr \<lparr>body = JObj [(''error'', JStr ''Parameters 'a' and 'b' are required'')],
                 status = 400\<rparr>" for op
    using assms by (auto simp: divide_with_def divide_try_def split: option.splits)
  ultimately show ?thesis
    by (simp only: Let_def add_def subtract_def multiply_def divide_view_def simp_thms)
qed

theorem missing_parameter_400_witness:
  "[''a'' \<mapsto> ''5''] ''b'' = None
   \<and> add ''2024-01-01T00:00:00+00:00'' [''a'' \<mapsto> ''5'']
      = Inr \<lparr>body = JObj [(''error'', JStr ''Parameters 'a' and 'b' are required'')],
              status = 400\<rparr>
   \<and> divide_with (\<lambda>a b. Inl (TypeError ''called'')) ''2024-01-01T00:00:00+00:00'' [''a'' \<mapsto> ''5'']
      = Inr \<lparr>body = JObj [(''error'', JStr ''Parameters 'a' and 'b' are required'')],
              status = 400\<rparr>"
  using missing_parameter_400 [of "[''a'' \<mapsto> ''5'']" add_numbers
      "''2024-01-01T00:00:00+00:00''" subtract_numbers multiply_numbers
      "\<lambda>a b. Inl (TypeError ''called'')"]
  by (simp add: Let_def)

lemma digits_value_digits:
  "list_all is_digit ds \<Longrightarrow> 0 \<le> acc \<Longrightarrow> \<exists>v. digits_value ds acc = Some v \<and> 0 \<le> v"
proof (induction ds arbitrary: acc)
  case Nil
  then show ?case by simp
next
  case (Cons c cs)
  then have "is_digit c" and "list_all is_digit cs" by simp_all
  then have "0 \<le> 10 * acc + digit_val c"
    using Cons.prems(2) by (simp add: is_digit_def digit_val_def)
  from Cons.IH [OF \<open>list_all is_digit cs\<close> this] \<open>is_digit c\<close> show ?case by simp
qed

text \<open>
  Claim C7. A path \<^verbatim>\<open>/api/parity/\<close> or \<^verbatim>\<open>/api/odd_even/\<close> followed by a
  negative integer literal matches no route: the answer is the 404 response of
  \<^verbatim>\<open>not_found\<close>, with status 404 and not 400. A literal of digits alone does
  match and gives a non-negative integer to the view.
\<close>

theorem negative_path_not_found:
  assumes "path req = ''/api/parity/-'' @ ds \<or> path req = ''/api/odd_even/-'' @ ds"
  shows "match_url (path req) = None \<and> handle_request now req = not_found now
       \<and> status (handle_request now req) = 404
       \<and> (ds \<noteq> [] \<and> list_all is_digit ds \<longrightarrow>
            (\<exists>n. 0 \<le> n \<and> match_url (''/api/parity/'' @ ds) = Some (Parity_endpoint n, [GET]))
          \<and> (\<exists>n. 0 \<le> n \<and> match_url (''/api/odd_even/'' @ ds) = Some (Odd_even_endpoint n, [GET])))"
proof -
  have m: "match_url (path req) = None"
    using assms by (auto simp: match_url_def int_converter_def is_digit_def)
  then have h: "handle_request now req = not_found now"
    by (simp add: handle_request_def)
  have pos: "(\<exists>n. 0 \<le> n \<and> match_url (''/api/parity/'' @ ds) = Some (Parity_endpoint n, [GET]))
          \<and> (\<exists>n. 0 \<le> n \<and> match_url (''/api/odd_even/'' @ ds) = Some (Odd_even_endpoint n, [GET]))"
    if "ds \<noteq> [] \<and> list_all is_digit ds"
  proof -
    from that digits_value_digits [of ds 0] obtain v
      where "digits_value ds 0 = Some v" and "0 \<le> v" by auto
    with that show ?thesis
      by (auto simp: match_url_def int_converter_def)
  qed
  from m h pos show ?thesis by (simp add: not_found_def)
qed

theorem negative_path_not_found_witness:
  "handle_request ''now'' \<lparr>req_method = GET, path = ''/api/parity/-4'', args = Map.empty,
      get_json = JNull\<rparr> = not_found ''now''
   \<and> status (handle_request ''now'' \<lparr>req_method = GET, path = ''/api/odd_even/-4'',
      args = Map.empty, get_json = JNull\<rparr>) = 404
   \<and> list_all is_digit ''4''
   \<and> (\<exists>n. 0 \<le> n \<and> match_url ''/api/parity/4'' = Some (Parity_endpoint n, [GET]))"
  using negative_path_not_found [of "\<lparr>req_method = GET, path = ''/api/parity/-4'',
      args = Map.empty, get_json = JNull\<rparr>" "''4''" "''now''"]
    negative_path_not_found [of "\<lparr>req_method = GET, path = ''/api/odd_even/-4'',
      args = Map.empty, get_json = JNull\<rparr>" "''4''" "''now''"]
  by (simp add: is_digit_def not_found_def)

section \<open>Magnitudes stay non-negative\<close>

lemma round_double_nonneg:
  assumes "0 \<le> v" and "round_double v = Some r"
  shows "0 \<le> r"
proof (cases "v = 0")
  case True
  with assms(2) show ?thesis by (simp add: round_double_def)
next
  case False
  define k where "k = max (floor_log2 v - 52) (- 1074)"
  have "0 \<le> v / pow2 k" using assms(1) pow2_pos [of k] by simp
  then have "0 \<le> \<lfloor>v / pow2 k\<rfloor>" by simp
  with floor_le_round_half_even [of "v / pow2 k"] have "0 \<le> round_half_even (v / pow2 k)"
    by linarith
  then have "0 \<le> of_int (round_half_even (v / pow2 k)) * pow2 k"
    using pow2_pos [of k] by simp
  moreover from assms(2) False have "r = of_int (round_half_even (v / pow2 k)) * pow2 k"
    by (simp add: round_double_def k_def Let_def split: if_splits)
  ultimately show ?thesis by simp
qed

lemma float_ok_float_of_mag: "0 \<le> v \<Longrightarrow> float_ok (float_of_mag s v)"
  using round_double_nonneg [of v] by (simp add: float_of_mag_def split: option.splits)

lemma float_ok_fadd: "float_ok x \<Longrightarrow> float_ok y \<Longrightarrow> float_ok (fadd x y)"
  by (cases x; cases y) (simp_all add: Let_def float_ok_float_of_mag)

lemma float_ok_closed:
  assumes "float_ok x" and "float_ok y"
  shows "float_ok (fneg x)" and "float_ok (fabs x)" and "float_ok (fadd x y)"
    and "float_ok (fsub x y)" and "float_ok (fmul x y)" and "fdiv x y = Inr z \<Longrightarrow> float_ok z"
proof -
  show "float_ok (fneg x)" using assms(1) by (cases x) simp_all
  show "float_ok (fabs x)" using assms(1) by (cases x) simp_all
  show "float_ok (fadd x y)" using assms by (rule float_ok_fadd)
  have "float_ok (fneg y)" using assms(2) by (cases y) simp_all
  with assms(1) show "float_ok (fsub x y)" unfolding fsub_def by (rule float_ok_fadd)
  show "float_ok (fmul x y)"
    using assms by (cases x; cases y) (simp_all add: float_ok_float_of_mag)
  show "float_ok z" if "fdiv x y = Inr z"
    using assms that by (cases x; cases y) (auto simp: float_ok_float_of_mag split: if_splits)
qed

lemma float_ok_of_int:
  "float_of_int i = Inr z \<Longrightarrow> float_ok z" and "int_truediv i j = Inr z \<Longrightarrow> float_ok z"
proof -
  show "float_ok z" if "float_of_int i = Inr z"
    using that round_double_nonneg [of "of_int \<bar>i\<bar>"]
    by (auto simp: float_of_int_def split: option.splits)
  show "float_ok z" if "int_truediv i j = Inr z"
    using that round_double_nonneg [of "of_int \<bar>i\<bar> / of_int \<bar>j\<bar>"]
    by (auto simp: int_truediv_def split: option.splits if_splits)
qed

end
